theory Spec2Isabelle
  imports Complex_Main "HOL-Library.AList" "HOL-Library.Char_ord" "HOL-Library.List_Lexorder"
begin

section \<open>vis\_pae.py: the chain segmenter and the figure composer\<close>

text \<open>
  The script reads ten JSON files of a structure prediction, derives a chain segmentation
  from the per-token chain labels of each of the five models, and saves one annotated
  heat map per model.

  Conventions of the embedding.
  \<^item> A chain label is a value of a linearly ordered type \<open>'l\<close>; \<open>np.unique\<close> sorts labels
    by code point, which for \<open>char\<close> is the order of \<open>Char_ord\<close> and for \<open>string\<close> the
    lexicographic order of \<open>List_Lexorder\<close>. A label sequence such as \<open>"ABABAB"\<close> is the
    list of its characters. Labels are taken to pass through \<open>np.array\<close> unchanged (numpy
    drops trailing NUL characters of a string), and the element type of the arrays is not
    modelled (numpy gives the empty array the type \<open>float64\<close>).
  \<^item> A Python \<open>dict\<close> is an association list in insertion order with distinct keys;
    \<open>d[k] = v\<close> is \<open>AList.update k v d\<close> (overwrite in place, or append), \<open>d[k]\<close> is
    \<open>dict_get\<close>, which raises \<open>KeyError\<close>.
  \<^item> Every raise of the source is a value \<open>Inl e\<close> of \<open>py_error + 'a\<close>.
  \<^item> Positions are \<open>nat\<close> (indices of a list); plot coordinates are \<open>rat\<close>: the source
    computes \<open>start_index - 0.5\<close> and \<open>(start_index + end_index) / 2\<close> in binary floating
    point, where half-integers of this size are exact.
  \<^item> The PAE matrix is passed to \<open>imshow\<close> untouched; its type \<open>'p\<close> is left open.
  \<^item> A figure is the list of the plotting calls made on it, in order. Calls of matplotlib
    are taken not to raise.
\<close>

subsection \<open>Errors and dictionaries\<close>

datatype py_error =
    FileNotFoundError
  | JSONDecodeError
  | AttributeError
  | KeyError
  | IndexError
  | TypeError

type_synonym ('k, 'v) dict = "('k \<times> 'v) list"

definition dict_get :: "('k, 'v) dict \<Rightarrow> 'k \<Rightarrow> py_error + 'v" where
  "dict_get d k = (case map_of d k of None \<Rightarrow> Inl KeyError | Some v \<Rightarrow> Inr v)"

text \<open>A list comprehension whose element expression may raise: the first raise wins.\<close>

fun comprehension :: "('a \<Rightarrow> py_error + 'b) \<Rightarrow> 'a list \<Rightarrow> py_error + 'b list" where
  "comprehension f [] = Inr []"
| "comprehension f (x # xs) =
     (case f x of
        Inl e \<Rightarrow> Inl e
      | Inr y \<Rightarrow> (case comprehension f xs of Inl e \<Rightarrow> Inl e | Inr ys \<Rightarrow> Inr (y # ys)))"

subsection \<open>process\_token\_chains\<close>

text \<open>\<open>np.unique(a)\<close>: the sorted distinct elements of \<open>a\<close>.\<close>

definition np_unique :: "'l::linorder list \<Rightarrow> 'l list" where
  "np_unique xs = sort (remdups xs)"

text \<open>\<open>np.where(token_chain_ids == char)[0]\<close>: the positions holding \<open>char\<close>, ascending.\<close>

definition np_where_eq :: "'l list \<Rightarrow> 'l \<Rightarrow> nat list" where
  "np_where_eq xs c = [i \<leftarrow> [0..<length xs]. xs ! i = c]"

text \<open>\<open>indices[0]\<close> and \<open>indices[-1]\<close>; both raise on an empty array.\<close>

definition index_first :: "nat list \<Rightarrow> py_error + nat" where
  "index_first indices = (case indices of [] \<Rightarrow> Inl IndexError | i # _ \<Rightarrow> Inr i)"

definition index_last :: "nat list \<Rightarrow> py_error + nat" where
  "index_last indices = (if indices = [] then Inl IndexError else Inr (last indices))"

text \<open>\<open>{char: i for i, char in enumerate(unique_chains)}\<close>\<close>

definition make_chain_to_num :: "'l list \<Rightarrow> ('l, nat) dict" where
  "make_chain_to_num unique_chains =
     fold (\<lambda>(i, char) d. AList.update char i d) (enumerate 0 unique_chains) []"

text \<open>
  The loop \<open>for char in unique_chains\<close> over the two dictionaries
  \<open>chain_to_start_index\<close> and \<open>chain_to_end_index\<close>.
\<close>

fun start_end_loop ::
  "'l list \<Rightarrow> 'l list \<Rightarrow> ('l, nat) dict \<times> ('l, nat) dict
     \<Rightarrow> py_error + (('l, nat) dict \<times> ('l, nat) dict)" where
  "start_end_loop token_chain_ids [] (s, e) = Inr (s, e)"
| "start_end_loop token_chain_ids (char # rest) (s, e) =
     (let indices = np_where_eq token_chain_ids char in
      case index_first indices of
        Inl err \<Rightarrow> Inl err
      | Inr i0 \<Rightarrow>
          (case index_last indices of
             Inl err \<Rightarrow> Inl err
           | Inr i1 \<Rightarrow>
               start_end_loop token_chain_ids rest
                 (AList.update char i0 s, AList.update char i1 e)))"

text \<open>
  The result \<open>(chain_to_num, chain_to_start_index, chain_to_end_index, token_chain_nums)\<close>;
  \<open>token_chain_nums\<close> has been reshaped to one row.
\<close>

type_synonym 'l segmentation =
  "('l, nat) dict \<times> ('l, nat) dict \<times> ('l, nat) dict \<times> nat list list"

definition process_token_chains :: "'l::linorder list \<Rightarrow> py_error + 'l segmentation" where
  "process_token_chains token_chain_ids =
     (let unique_chains = np_unique token_chain_ids;
          chain_to_num = make_chain_to_num unique_chains
      in case comprehension (dict_get chain_to_num) token_chain_ids of
           Inl err \<Rightarrow> Inl err
         | Inr nums \<Rightarrow>
             (case start_end_loop token_chain_ids unique_chains ([], []) of
                Inl err \<Rightarrow> Inl err
              | Inr (chain_to_start_index, chain_to_end_index) \<Rightarrow>
                  Inr (chain_to_num, chain_to_start_index, chain_to_end_index, [nums])))"

subsection \<open>The input files\<close>

text \<open>
  A parsed JSON document is an object or some other value (array, string, number,
  \<open>true\<close>, \<open>false\<close>, \<open>null\<close>). Of an object the script reads three members; a member that
  is present is taken to have the documented type (a list of labels, a list of residue
  ids, a matrix). \<open>others\<close> holds the remaining members as key and value text. A file
  that \<open>json.load\<close> rejects is \<open>Malformed\<close>; a path without a file cannot be opened.

  A residue id is a JSON integer or \<open>null\<close>, which \<open>json.load\<close> turns into \<open>None\<close>; the
  script applies \<open>%\<close> to it, and \<open>None % 200\<close> raises \<open>TypeError\<close>. Other JSON values as
  residue ids are not modelled.
\<close>

datatype res_id = ResInt int | ResNull

definition is_integer :: "res_id \<Rightarrow> bool" where
  "is_integer v = (case v of ResInt n \<Rightarrow> True | ResNull \<Rightarrow> False)"

record ('l, 'p) json_object =
  token_chain_ids :: "'l list option"
  token_res_ids :: "res_id list option"
  pae :: "'p option"
  others :: "(string \<times> string) list"

datatype ('l, 'p) json = JObject "('l, 'p) json_object" | JOther

datatype ('l, 'p) disk_file = Malformed | Json "('l, 'p) json"

type_synonym ('l, 'p) filesystem = "string \<Rightarrow> ('l, 'p) disk_file option"

text \<open>\<open>json.load(open(path))\<close>\<close>

definition json_load_open :: "('l, 'p) filesystem \<Rightarrow> string \<Rightarrow> py_error + ('l, 'p) json" where
  "json_load_open fs path =
     (case fs path of
        None \<Rightarrow> Inl FileNotFoundError
      | Some Malformed \<Rightarrow> Inl JSONDecodeError
      | Some (Json v) \<Rightarrow> Inr v)"

text \<open>
  \<open>[json.load(open(i)) for i in names]\<close>, with the paths it tried to open, in order.
\<close>

fun load_all ::
  "('l, 'p) filesystem \<Rightarrow> string list \<Rightarrow> string list \<times> (py_error + ('l, 'p) json list)" where
  "load_all fs [] = ([], Inr [])"
| "load_all fs (path # rest) =
     (case json_load_open fs path of
        Inl err \<Rightarrow> ([path], Inl err)
      | Inr v \<Rightarrow>
          (case load_all fs rest of
             (tried, Inl err) \<Rightarrow> (path # tried, Inl err)
           | (tried, Inr vs) \<Rightarrow> (path # tried, Inr (v # vs))))"

text \<open>\<open>os.path.join(a, b)\<close> (POSIX) and the decimal \<open>str(n)\<close> of an f-string.\<close>

definition os_path_join :: "string \<Rightarrow> string \<Rightarrow> string" where
  "os_path_join a b =
     (if b \<noteq> [] \<and> hd b = CHR ''/'' then b
      else if a = [] \<or> last a = CHR ''/'' then a @ b
      else a @ ''/'' @ b)"

fun py_str :: "nat \<Rightarrow> string" where
  "py_str n =
     (if n < 10 then [''0123456789'' ! n]
      else py_str (n div 10) @ [''0123456789'' ! (n mod 10)])"

declare py_str.simps [simp del]

definition json_name_full :: "string \<Rightarrow> string list" where
  "json_name_full name =
     map (\<lambda>i. os_path_join name (name @ ''_full_data_'' @ py_str i @ ''.json'')) [0..<5]"

definition json_name_confidence :: "string \<Rightarrow> string list" where
  "json_name_confidence name =
     map (\<lambda>i. os_path_join name (name @ ''_summary_confidences_'' @ py_str i @ ''.json''))
       [0..<5]"

definition figure_name :: "string \<Rightarrow> nat \<Rightarrow> string" where
  "figure_name name model_num = name @ ''/figure_pae_'' @ py_str model_num @ ''.png''"

subsection \<open>The figure\<close>

text \<open>
  The four axes of a figure, and the plotting calls the script makes. A call on all
  spines of an axes is one constructor. Keyword arguments keep the source's order.
\<close>

datatype axes = Ax | AxColorbar | AxTopbar | AxLeftbar

datatype ('l, 'p) call =
    Subplots nat nat
  | ImshowPae 'p string nat nat
  | SetXticks axes "rat list"
  | SetYticks axes "rat list"
  | SpinesStyle axes string nat string
  | SpinesVisible axes bool
  | AppendAxes axes string string rat
  | ImshowChains axes "nat list list" string string rat
  | FigColorbar axes string
  | Axhline axes rat string nat string
  | Axvline axes rat string nat string
  | Text axes rat rat 'l string string string
  | Savefig string nat string bool

definition is_line :: "('l, 'p) call \<Rightarrow> bool" where
  "is_line c = (case c of Axhline _ _ _ _ _ \<Rightarrow> True | Axvline _ _ _ _ _ \<Rightarrow> True | _ \<Rightarrow> False)"

definition is_text :: "('l, 'p) call \<Rightarrow> bool" where
  "is_text c = (case c of Text _ _ _ _ _ _ _ \<Rightarrow> True | _ \<Rightarrow> False)"

definition hide_axes_frame :: "axes \<Rightarrow> ('l, 'p) call list" where
  "hide_axes_frame ax = [SpinesVisible ax False, SetXticks ax [], SetYticks ax []]"

text \<open>
  The tick loop \<open>for i in range(len(token_res_ids))\<close>. \<open>token_res_ids == 1\<close> compares a
  list with an integer and is \<open>False\<close>, so \<open>token_res_ids[i] % 200\<close> is evaluated at every
  \<open>i\<close>. Python's \<open>%\<close> with a positive modulus is \<open>mod\<close> on \<open>int\<close>; on \<open>None\<close> it raises.
\<close>

definition mod_200 :: "res_id \<Rightarrow> py_error + int" where
  "mod_200 v = (case v of ResInt n \<Rightarrow> Inr (n mod 200) | ResNull \<Rightarrow> Inl TypeError)"

fun xticks_loop ::
  "res_id list \<Rightarrow> nat list \<Rightarrow> nat list \<times> res_id list
     \<Rightarrow> py_error + (nat list \<times> res_id list)" where
  "xticks_loop res_ids [] (xticks_loc, xticks_present) = Inr (xticks_loc, xticks_present)"
| "xticks_loop res_ids (i # rest) (xticks_loc, xticks_present) =
     (case mod_200 (res_ids ! i) of
        Inl err \<Rightarrow> Inl err
      | Inr r \<Rightarrow>
          if False \<or> r = 0
          then xticks_loop res_ids rest (xticks_loc @ [i], xticks_present @ [res_ids ! i])
          else xticks_loop res_ids rest (xticks_loc, xticks_present))"

definition xticks :: "res_id list \<Rightarrow> py_error + (nat list \<times> res_id list)" where
  "xticks res_ids = xticks_loop res_ids [0..<length res_ids] ([], [])"

text \<open>The four lines drawn for one start index, at \<open>start_index - 0.5\<close>.\<close>

definition separator_calls :: "nat \<Rightarrow> ('l, 'p) call list" where
  "separator_calls start_index =
     [Axhline Ax (of_nat start_index - 1 / 2) ''k'' 1 ''--'',
      Axvline Ax (of_nat start_index - 1 / 2) ''k'' 1 ''--'',
      Axvline AxTopbar (of_nat start_index - 1 / 2) ''w'' 1 ''-'',
      Axhline AxLeftbar (of_nat start_index - 1 / 2) ''w'' 1 ''-'']"

text \<open>\<open>for char, start_index in chain_to_start_index.items()\<close>\<close>

definition boundary_calls :: "('l, nat) dict \<Rightarrow> ('l, 'p) call list" where
  "boundary_calls chain_to_start_index =
     concat (map (\<lambda>(char, start_index).
                    if start_index \<noteq> 0 then separator_calls start_index else [])
               chain_to_start_index)"

text \<open>The two texts of one chain, at \<open>(start_index + end_index) / 2\<close>.\<close>

definition label_calls ::
  "('l, nat) dict \<Rightarrow> ('l, nat) dict \<Rightarrow> 'l \<Rightarrow> py_error + ('l, 'p) call list" where
  "label_calls chain_to_start_index chain_to_end_index char =
     (case dict_get chain_to_start_index char of
        Inl err \<Rightarrow> Inl err
      | Inr start_index \<Rightarrow>
          (case dict_get chain_to_end_index char of
             Inl err \<Rightarrow> Inl err
           | Inr end_index \<Rightarrow>
               (let center_index = (of_nat start_index + of_nat end_index) / 2 in
                Inr [Text AxTopbar center_index 0 char ''#222222'' ''center'' ''center'',
                     Text AxLeftbar 0 center_index char ''#222222'' ''center'' ''center''])))"

text \<open>
  One pass of the loop over \<open>model_num\<close>: the figure's path and its calls, or the error
  raised before \<open>savefig\<close>. \<open>.keys()\<close> raises on a document that is not an object, a
  subscript on a missing member raises \<open>KeyError\<close>, the tick loop raises on a residue id
  that is not a number.
\<close>

definition render_model ::
  "string \<Rightarrow> nat \<Rightarrow> ('l::linorder, 'p) json \<Rightarrow> ('l, 'p) json
     \<Rightarrow> py_error + (string \<times> ('l, 'p) call list)" where
  "render_model name model_num full conf =
     (case full of
        JOther \<Rightarrow> Inl AttributeError
      | JObject data_full \<Rightarrow>
     (case conf of
        JOther \<Rightarrow> Inl AttributeError
      | JObject data_confidence \<Rightarrow>
     (case token_chain_ids data_full of
        None \<Rightarrow> Inl KeyError
      | Some chain_ids \<Rightarrow>
     (case process_token_chains chain_ids of
        Inl err \<Rightarrow> Inl err
      | Inr (chain_to_num, chain_to_start_index, chain_to_end_index, token_chain_nums) \<Rightarrow>
     (case token_res_ids data_full of
        None \<Rightarrow> Inl KeyError
      | Some res_ids \<Rightarrow>
     (case xticks res_ids of
        Inl err \<Rightarrow> Inl err
      | Inr (xticks_loc, xticks_present) \<Rightarrow>
     (case pae data_full of
        None \<Rightarrow> Inl KeyError
      | Some pae_array \<Rightarrow>
     (case comprehension (label_calls chain_to_start_index chain_to_end_index)
             (map fst chain_to_start_index) of
        Inl err \<Rightarrow> Inl err
      | Inr labels \<Rightarrow>
          Inr (figure_name name model_num,
               [Subplots 4 4,
                ImshowPae pae_array ''Greens_r'' 0 30,
                SetYticks Ax [],
                SpinesStyle Ax ''--'' 1 ''k'',
                AppendAxes AxColorbar ''right'' ''5%'' (2 / 10),
                AppendAxes AxTopbar ''top'' ''8%'' (3 / 100),
                AppendAxes AxLeftbar ''left'' ''8%'' (3 / 100),
                ImshowChains AxTopbar token_chain_nums ''tab10'' ''auto'' (7 / 10)]
               @ hide_axes_frame AxTopbar
               @ [ImshowChains AxLeftbar (transpose token_chain_nums) ''tab10'' ''auto'' (7 / 10)]
               @ hide_axes_frame AxLeftbar
               @ [FigColorbar AxColorbar (''PAE ('' @ [CHR 0xC5] @ '')'')]
               @ boundary_calls chain_to_start_index
               @ concat labels
               @ [Savefig (figure_name name model_num) 300 ''tight'' False])))))))))"

subsection \<open>main and the script\<close>

record ('l, 'p) effects =
  opened :: "string list"
  saved :: "(string \<times> ('l, 'p) call list) list"
  raised :: "py_error option"

text \<open>\<open>for model_num in range(5)\<close>: the figures saved so far, and the error that ended it.\<close>

fun main_loop ::
  "string \<Rightarrow> ('l::linorder, 'p) json list \<Rightarrow> ('l, 'p) json list \<Rightarrow> nat list
     \<Rightarrow> (string \<times> ('l, 'p) call list) list
     \<Rightarrow> (string \<times> ('l, 'p) call list) list \<times> py_error option" where
  "main_loop name fulls confs [] figs = (figs, None)"
| "main_loop name fulls confs (model_num # rest) figs =
     (case render_model name model_num (fulls ! model_num) (confs ! model_num) of
        Inl err \<Rightarrow> (figs, Some err)
      | Inr fig \<Rightarrow> main_loop name fulls confs rest (figs @ [fig]))"

definition main :: "string \<Rightarrow> ('l::linorder, 'p) filesystem \<Rightarrow> ('l, 'p) effects" where
  "main name fs =
     (case load_all fs (json_name_full name) of
        (log1, Inl err) \<Rightarrow> \<lparr>opened = log1, saved = [], raised = Some err\<rparr>
      | (log1, Inr json_data_full) \<Rightarrow>
          (case load_all fs (json_name_confidence name) of
             (log2, Inl err) \<Rightarrow> \<lparr>opened = log1 @ log2, saved = [], raised = Some err\<rparr>
           | (log2, Inr json_data_confidence) \<Rightarrow>
               (case main_loop name json_data_full json_data_confidence [0..<5] [] of
                  (figs, r) \<Rightarrow> \<lparr>opened = log1 @ log2, saved = figs, raised = r\<rparr>)))"

text \<open>
  The \<open>__main__\<close> guard, with the function it calls as a parameter. An uncaught
  exception and \<open>sys.exit(1)\<close> both end the process with status 1.
\<close>

record ('l, 'p) process =
  stdout :: "string list"
  exit_status :: nat
  io :: "('l, 'p) effects"

definition usage :: string where
  "usage = ''Usage: python vis_pae.py <alphafold_prediction_directory>''"

definition guard ::
  "(string \<Rightarrow> ('l, 'p) filesystem \<Rightarrow> ('l, 'p) effects) \<Rightarrow> string list \<Rightarrow> ('l, 'p) filesystem
     \<Rightarrow> ('l, 'p) process" where
  "guard main_fn argv fs =
     (if length argv < 2
      then \<lparr>stdout = [usage], exit_status = 1,
            io = \<lparr>opened = [], saved = [], raised = None\<rparr>\<rparr>
      else (let eff = main_fn (argv ! 1) fs in
            \<lparr>stdout = [], exit_status = (if raised eff = None then 0 else 1), io = eff\<rparr>))"

definition script :: "string list \<Rightarrow> ('l::linorder, 'p) filesystem \<Rightarrow> ('l, 'p) process" where
  "script argv fs = guard main argv fs"

subsection \<open>Sample inputs\<close>

text \<open>
  A prediction directory \<open>d\<close> with three tokens in two chains: complete, and with the
  two files of model 0 only.
\<close>

definition sample_full :: "(char, nat list list) json_object" where
  "sample_full = \<lparr>token_chain_ids = Some ''AAB'', token_res_ids = Some [ResInt 1, ResInt 2, ResInt 200],
     pae = Some [[0, 1, 2], [1, 0, 1], [2, 1, 0]], others = []\<rparr>"

definition sample_confidence :: "(char, nat list list) json_object" where
  "sample_confidence = \<lparr>token_chain_ids = None, token_res_ids = None, pae = None,
     others = [(''ptm'', ''0.8'')]\<rparr>"

definition fs_complete :: "(char, nat list list) filesystem" where
  "fs_complete path =
     (if path \<in> set (json_name_full ''d'') then Some (Json (JObject sample_full))
      else if path \<in> set (json_name_confidence ''d'') then Some (Json (JObject sample_confidence))
      else None)"

definition fs_model0_only :: "(char, nat list list) filesystem" where
  "fs_model0_only path =
     (if path = json_name_full ''d'' ! 0 then Some (Json (JObject sample_full))
      else if path = json_name_confidence ''d'' ! 0 then Some (Json (JObject sample_confidence))
      else None)"

subsection \<open>Runs that differ in the unused inputs\<close>

text \<open>
  Two file systems that agree on the ten input files up to the values of
  \<open>token_res_ids\<close> (of the same length) in the full-data files and up to the contents of
  the confidence files. \<open>dead_inputs_as_claimed\<close> asks of two differing confidence files
  that both parse, and nothing of the residue ids but their number;
  \<open>dead_inputs_well_typed\<close> asks that two differing confidence files both parse to JSON
  objects and that two differing lists of residue ids hold integers only. Then a run with
  an array as the confidence file of model 0, a run with \<open>null\<close> as the last residue id,
  and a run with other residue ids and other confidence members.
\<close>

definition parses :: "('l, 'p) disk_file option \<Rightarrow> bool" where
  "parses f = (case f of Some (Json v) \<Rightarrow> True | _ \<Rightarrow> False)"

definition object_of :: "('l, 'p) disk_file option \<Rightarrow> ('l, 'p) json_object option" where
  "object_of f = (case f of Some (Json (JObject ob)) \<Rightarrow> Some ob | _ \<Rightarrow> None)"

definition is_object :: "('l, 'p) disk_file option \<Rightarrow> bool" where
  "is_object f = (object_of f \<noteq> None)"

definition same_but_res_ids ::
  "('l, 'p) disk_file option \<Rightarrow> ('l, 'p) disk_file option \<Rightarrow> bool" where
  "same_but_res_ids f g =
     (f = g \<or>
      (case (object_of f, object_of g) of
         (Some a, Some b) \<Rightarrow>
           (case (token_res_ids a, token_res_ids b) of
              (Some r, Some r') \<Rightarrow> length r = length r' \<and> b = a\<lparr>token_res_ids := Some r'\<rparr>
            | _ \<Rightarrow> False)
       | _ \<Rightarrow> False))"

definition same_but_integer_res_ids ::
  "('l, 'p) disk_file option \<Rightarrow> ('l, 'p) disk_file option \<Rightarrow> bool" where
  "same_but_integer_res_ids f g =
     (f = g \<or>
      (case (object_of f, object_of g) of
         (Some a, Some b) \<Rightarrow>
           (case (token_res_ids a, token_res_ids b) of
              (Some r, Some r') \<Rightarrow>
                length r = length r' \<and> list_all is_integer r \<and> list_all is_integer r' \<and>
                b = a\<lparr>token_res_ids := Some r'\<rparr>
            | _ \<Rightarrow> False)
       | _ \<Rightarrow> False))"

definition dead_inputs_as_claimed ::
  "string \<Rightarrow> ('l, 'p) filesystem \<Rightarrow> ('l, 'p) filesystem \<Rightarrow> bool" where
  "dead_inputs_as_claimed name fs fs' =
     (list_all (\<lambda>path. same_but_res_ids (fs path) (fs' path)) (json_name_full name) \<and>
      list_all (\<lambda>path. fs path = fs' path \<or> parses (fs path) \<and> parses (fs' path))
        (json_name_confidence name))"

definition dead_inputs_well_typed ::
  "string \<Rightarrow> ('l, 'p) filesystem \<Rightarrow> ('l, 'p) filesystem \<Rightarrow> bool" where
  "dead_inputs_well_typed name fs fs' =
     (list_all (\<lambda>path. same_but_integer_res_ids (fs path) (fs' path)) (json_name_full name) \<and>
      list_all (\<lambda>path. fs path = fs' path \<or> is_object (fs path) \<and> is_object (fs' path))
        (json_name_confidence name))"

definition fs_confidence_array :: "(char, nat list list) filesystem" where
  "fs_confidence_array path =
     (if path = json_name_confidence ''d'' ! 0 then Some (Json JOther) else fs_complete path)"

definition fs_null_res_id :: "(char, nat list list) filesystem" where
  "fs_null_res_id path =
     (if path \<in> set (json_name_full ''d'')
      then Some (Json (JObject (sample_full\<lparr>token_res_ids := Some [ResInt 1, ResInt 2, ResNull]\<rparr>)))
      else fs_complete path)"

definition fs_other_dead_inputs :: "(char, nat list list) filesystem" where
  "fs_other_dead_inputs path =
     (if path \<in> set (json_name_full ''d'')
      then Some (Json (JObject (sample_full\<lparr>token_res_ids := Some [ResInt 200, ResInt 400, ResInt 7]\<rparr>)))
      else if path \<in> set (json_name_confidence ''d'')
      then Some (Json (JObject (sample_confidence\<lparr>others := [(''iptm'', ''0.1'')]\<rparr>)))
      else None)"

text \<open>
  What the loader returns on two well-typed such file systems: documents that are equal,
  or objects that differ in \<open>token_res_ids\<close> only, both lists of integers, or two objects.
\<close>

definition full_rel :: "('l, 'p) json \<Rightarrow> ('l, 'p) json \<Rightarrow> bool" where
  "full_rel v w = (v = w \<or> (\<exists>a r r'. v = JObject a \<and> token_res_ids a = Some r \<and>
      list_all is_integer r \<and> list_all is_integer r' \<and>
      w = JObject (a\<lparr>token_res_ids := Some r'\<rparr>)))"

definition conf_rel :: "('l, 'p) json \<Rightarrow> ('l, 'p) json \<Rightarrow> bool" where
  "conf_rel v w = (v = w \<or> (\<exists>a b. v = JObject a \<and> w = JObject b))"

section \<open>Properties of the chain segmenter\<close>

subsection \<open>Closed form of the result\<close>

lemma set_np_unique: "set (np_unique xs) = set xs"
  by (simp add: np_unique_def)

lemma distinct_np_unique: "distinct (np_unique xs)"
  by (simp add: np_unique_def)

lemma sorted_np_unique: "sorted (np_unique xs)"
  by (simp add: np_unique_def)

lemma length_np_unique: "length (np_unique xs) = card (set xs)"
  by (simp add: np_unique_def length_remdups_card_conv)

lemma update_fresh: "k \<notin> fst ` set d \<Longrightarrow> AList.update k v d = d @ [(k, v)]"
  by (induction d) auto

lemma fold_update_enumerate:
  "distinct ks \<Longrightarrow> set ks \<inter> fst ` set acc = {} \<Longrightarrow>
   fold (\<lambda>(i, char) d. AList.update char i d) (enumerate n ks) acc
     = acc @ zip ks [n..<n + length ks]"
proof (induction ks arbitrary: n acc)
  case Nil
  then show ?case by simp
next
  case (Cons k ks)
  have fresh: "k \<notin> fst ` set acc" using Cons.prems by auto
  have disj: "set ks \<inter> fst ` set (acc @ [(k, n)]) = {}" using Cons.prems by auto
  have "fold (\<lambda>(i, char) d. AList.update char i d) (enumerate n (k # ks)) acc
      = fold (\<lambda>(i, char) d. AList.update char i d) (enumerate (Suc n) ks) (acc @ [(k, n)])"
    by (simp add: update_fresh [OF fresh])
  also have "\<dots> = (acc @ [(k, n)]) @ zip ks [Suc n..<Suc n + length ks]"
    using Cons.prems by (intro Cons.IH disj) simp
  also have "\<dots> = acc @ zip (k # ks) [n..<n + length (k # ks)]"
    by (subst (2) upt_rec) simp
  finally show ?case .
qed

lemma make_chain_to_num_zip:
  "distinct ks \<Longrightarrow> make_chain_to_num ks = zip ks [0..<length ks]"
  using fold_update_enumerate [of ks "[]" 0] by (simp add: make_chain_to_num_def)

lemma map_of_zip_upt_nth:
  "distinct ks \<Longrightarrow> i < length ks \<Longrightarrow> map_of (zip ks [0..<length ks]) (ks ! i) = Some i"
  by (metis (no_types, lifting) length_upt map_of_zip_nth minus_nat.diff_0 nth_upt plus_nat.add_0)

lemma comprehension_dict_get:
  "set xs \<subseteq> fst ` set d \<Longrightarrow>
   comprehension (dict_get d) xs = Inr (map (\<lambda>c. the (map_of d c)) xs)"
proof (induction xs)
  case Nil
  then show ?case by simp
next
  case (Cons x xs)
  then obtain v where "map_of d x = Some v"
    by (metis list.set_intros(1) map_of_eq_None_iff not_Some_eq subsetD)
  with Cons show ?case by (simp add: dict_get_def)
qed

lemma set_np_where_eq: "set (np_where_eq xs c) = {i. i < length xs \<and> xs ! i = c}"
  by (auto simp: np_where_eq_def)

lemma sorted_np_where_eq: "sorted (np_where_eq xs c)"
  by (simp add: np_where_eq_def sorted_wrt_filter)

lemma np_where_eq_nonempty: "c \<in> set xs \<Longrightarrow> np_where_eq xs c \<noteq> []"
  by (metis (mono_tags, lifting) empty_Collect_eq in_set_conv_nth set_empty set_np_where_eq)


lemma start_end_loop_closed:
  "set ks \<subseteq> set xs \<Longrightarrow> distinct ks \<Longrightarrow>
   set ks \<inter> fst ` set s = {} \<Longrightarrow> set ks \<inter> fst ` set e = {} \<Longrightarrow>
   start_end_loop xs ks (s, e) =
     Inr (s @ map (\<lambda>c. (c, hd (np_where_eq xs c))) ks,
          e @ map (\<lambda>c. (c, last (np_where_eq xs c))) ks)"
proof (induction ks arbitrary: s e)
  case Nil
  then show ?case by simp
next
  case (Cons k ks)
  have ne: "np_where_eq xs k \<noteq> []"
    using Cons.prems(1) by (simp add: np_where_eq_nonempty)
  then obtain i ws where ws: "np_where_eq xs k = i # ws"
    by (cases "np_where_eq xs k") auto
  have ks: "k \<notin> fst ` set s" and ke: "k \<notin> fst ` set e"
    using Cons.prems by auto
  let ?s = "s @ [(k, hd (np_where_eq xs k))]" and ?e = "e @ [(k, last (np_where_eq xs k))]"
  have step: "start_end_loop xs (k # ks) (s, e) = start_end_loop xs ks (?s, ?e)"
    using ne ws by (simp add: index_first_def index_last_def update_fresh [OF ks] update_fresh [OF ke])
  have "start_end_loop xs ks (?s, ?e) =
     Inr (?s @ map (\<lambda>c. (c, hd (np_where_eq xs c))) ks,
          ?e @ map (\<lambda>c. (c, last (np_where_eq xs c))) ks)"
    using Cons.prems by (intro Cons.IH) auto
  with step show ?case by simp
qed

lemma process_token_chains_closed:
  "process_token_chains xs =
     Inr (zip (np_unique xs) [0..<card (set xs)],
          map (\<lambda>c. (c, hd (np_where_eq xs c))) (np_unique xs),
          map (\<lambda>c. (c, last (np_where_eq xs c))) (np_unique xs),
          [map (\<lambda>c. the (map_of (zip (np_unique xs) [0..<card (set xs)]) c)) xs])"
proof -
  let ?u = "np_unique xs"
  have n: "make_chain_to_num ?u = zip ?u [0..<card (set xs)]"
    by (simp add: make_chain_to_num_zip distinct_np_unique length_np_unique)
  have keys: "set xs \<subseteq> fst ` set (zip ?u [0..<card (set xs)])"
    using length_np_unique [of xs] set_np_unique [of xs]
    by (metis length_upt map_fst_zip minus_nat.diff_0 set_map subset_refl)
  have c: "comprehension (dict_get (zip ?u [0..<card (set xs)])) xs =
      Inr (map (\<lambda>c. the (map_of (zip ?u [0..<card (set xs)]) c)) xs)"
    by (rule comprehension_dict_get [OF keys])
  have l: "start_end_loop xs ?u ([], []) =
      Inr ([] @ map (\<lambda>c. (c, hd (np_where_eq xs c))) ?u,
           [] @ map (\<lambda>c. (c, last (np_where_eq xs c))) ?u)"
    by (rule start_end_loop_closed) (simp_all add: set_np_unique distinct_np_unique)
  show ?thesis
    unfolding process_token_chains_def Let_def n c using l by simp
qed

lemma rank_in_strict_sorted:
  fixes u :: "'l::linorder list"
  assumes "sorted u" "distinct u" "i < length u"
  shows "card {d \<in> set u. d < u ! i} = i"
proof -
  have ss: "sorted_wrt (<) u" using assms by (simp add: strict_sorted_iff)
  have "{d \<in> set u. d < u ! i} = set (take i u)"
  proof (intro set_eqI iffI)
    fix d assume "d \<in> {d \<in> set u. d < u ! i}"
    then obtain j where j: "j < length u" "u ! j = d" "d < u ! i"
      by (auto simp: in_set_conv_nth)
    have "j < i"
    proof (rule ccontr)
      assume "\<not> j < i"
      then have "i \<le> j" by simp
      then have "u ! i \<le> u ! j" using assms(1) j(1) by (simp add: sorted_nth_mono)
      with j show False by simp
    qed
    with j assms(3) show "d \<in> set (take i u)"
      by (auto simp: in_set_conv_nth intro!: exI [of _ j])
  next
    fix d assume "d \<in> set (take i u)"
    then obtain j where j: "j < i" "u ! j = d"
      using assms(3) by (auto simp: in_set_conv_nth)
    then have "u ! j < u ! i" using sorted_wrt_nth_less [OF ss, of j i] assms(3) by simp
    with j assms(3) show "d \<in> {d \<in> set u. d < u ! i}" by auto
  qed
  moreover have "card (set (take i u)) = i"
    using assms by (simp add: distinct_card)
  ultimately show ?thesis by simp
qed

lemma chain_to_num_rank:
  assumes "c \<in> set xs"
  shows "map_of (zip (np_unique xs) [0..<card (set xs)]) c = Some (card {d \<in> set xs. d < c})"
proof -
  let ?u = "np_unique xs"
  from assms obtain i where i: "i < length ?u" "?u ! i = c"
    by (metis in_set_conv_nth set_np_unique)
  have "map_of (zip ?u [0..<length ?u]) (?u ! i) = Some i"
    by (rule map_of_zip_upt_nth [OF distinct_np_unique i(1)])
  moreover have "card {d \<in> set ?u. d < ?u ! i} = i"
    by (rule rank_in_strict_sorted [OF sorted_np_unique distinct_np_unique i(1)])
  ultimately show ?thesis
    using i by (simp add: length_np_unique set_np_unique)
qed

lemma hd_np_where_eq:
  assumes "c \<in> set xs"
  shows "hd (np_where_eq xs c) < length xs \<and> xs ! hd (np_where_eq xs c) = c \<and>
         (\<forall>i < length xs. xs ! i = c \<longrightarrow> hd (np_where_eq xs c) \<le> i)"
proof -
  let ?w = "np_where_eq xs c"
  have ne: "?w \<noteq> []" using assms by (rule np_where_eq_nonempty)
  then have "hd ?w \<in> set ?w" by simp
  then have a: "hd ?w < length xs \<and> xs ! hd ?w = c" by (simp add: set_np_where_eq)
  have "\<forall>i \<in> set ?w. hd ?w \<le> i"
    using sorted_np_where_eq [of xs c] ne by (cases ?w) auto
  then show ?thesis using a by (simp add: set_np_where_eq)
qed

lemma last_np_where_eq:
  assumes "c \<in> set xs"
  shows "last (np_where_eq xs c) < length xs \<and> xs ! last (np_where_eq xs c) = c \<and>
         (\<forall>i < length xs. xs ! i = c \<longrightarrow> i \<le> last (np_where_eq xs c))"
proof -
  let ?w = "np_where_eq xs c"
  have ne: "?w \<noteq> []" using assms by (rule np_where_eq_nonempty)
  then have "last ?w \<in> set ?w" by simp
  then have a: "last ?w < length xs \<and> xs ! last ?w = c" by (simp add: set_np_where_eq)
  have "\<forall>i \<in> set ?w. i \<le> last ?w"
    using sorted_np_where_eq [of xs c] ne
    by (metis append_butlast_last_id in_set_conv_decomp_last last_in_set order.refl sorted_append
        set_ConsD sorted_simps(2) last_appendR list.discI)
  then show ?thesis using a by (simp add: set_np_where_eq)
qed

lemma keys_zip_upt: "length u = k \<Longrightarrow> map fst (zip u [0..<k]) = u"
  by (simp add: map_fst_zip)

lemma vals_zip_upt: "length u = k \<Longrightarrow> map snd (zip u [0..<k]) = [0..<k]"
  by (simp add: map_snd_zip)

lemma map_of_graph: "distinct ks \<Longrightarrow> c \<in> set ks \<Longrightarrow> map_of (map (\<lambda>c. (c, f c)) ks) c = Some (f c)"
  by (induction ks) auto

lemma length_np_where_eq: "length (np_where_eq xs c) = count_list xs c"
proof -
  have "distinct (np_where_eq xs c)"
    by (simp add: np_where_eq_def)
  then have "length (np_where_eq xs c) = card {i. i < length xs \<and> xs ! i = c}"
    using set_np_where_eq [of xs c] by (metis distinct_card)
  also have "\<dots> = length (filter ((=) c) xs)"
    by (simp add: length_filter_conv_card eq_commute)
  finally show ?thesis by (simp add: count_list_eq_length_filter)
qed

lemma once_hd_last: "count_list xs c = 1 \<Longrightarrow> hd (np_where_eq xs c) = last (np_where_eq xs c)"
proof -
  assume "count_list xs c = 1"
  then have "length (np_where_eq xs c) = 1" by (simp add: length_np_where_eq)
  then obtain i where "np_where_eq xs c = [i]"
    by (cases "np_where_eq xs c") auto
  then show ?thesis by simp
qed


subsection \<open>The claims about process\_token\_chains\<close>

text \<open>
  C6. On the empty label sequence \<open>process_token_chains\<close> raises nothing and returns three
  empty dictionaries and a coded array of one row and no column.
\<close>

theorem process_token_chains_empty:
  "process_token_chains ([] :: 'l::linorder list) = Inr ([], [], [], [[]])"
  by (simp add: process_token_chains_def np_unique_def make_chain_to_num_def)

text \<open>
  C2. Every label sequence is coded without a raise: each label of the input gets as
  its index the number of distinct labels of the input that are smaller (its 0-based rank
  in sorted order), and the coded array has one row of the length of the input whose
  entry at \<open>i\<close> is the index of the label at \<open>i\<close>
\<close>

theorem process_token_chains_coding:
  "\<exists>n s e row. process_token_chains xs = Inr (n, s, e, [row]) \<and>
     (\<forall>c \<in> set xs. dict_get n c = Inr (card {d \<in> set xs. d < c})) \<and>
     length row = length xs \<and>
     (\<forall>i < length xs. dict_get n (xs ! i) = Inr (row ! i))"
proof -
  let ?n = "zip (np_unique xs) [0..<card (set xs)]"
  let ?row = "map (\<lambda>c. the (map_of ?n c)) xs"
  have rank: "\<forall>c \<in> set xs. dict_get ?n c = Inr (card {d \<in> set xs. d < c})"
    by (simp add: dict_get_def chain_to_num_rank)
  have "\<forall>i < length xs. dict_get ?n (xs ! i) = Inr (?row ! i)"
    by (simp add: dict_get_def chain_to_num_rank)
  with rank show ?thesis
    by (simp add: process_token_chains_closed)
qed

theorem process_token_chains_coding_witness:
  "CHR ''C'' \<in> set ''BAC'' \<and> (2::nat) < length ''BAC'' \<and>
   (\<exists>n s e row. process_token_chains ''BAC'' = Inr (n, s, e, [row]) \<and>
      dict_get n (CHR ''C'') = Inr 2 \<and> card {d \<in> set ''BAC''. d < CHR ''C''} = 2 \<and>
      row = [1, 0, 2] \<and> dict_get n (''BAC'' ! 2) = Inr (row ! 2))"
proof -
  from process_token_chains_coding [of "''BAC''"] obtain n s e row where
    r: "process_token_chains ''BAC'' = Inr (n, s, e, [row])" and
    rank: "\<forall>c \<in> set ''BAC''. dict_get n c = Inr (card {d \<in> set ''BAC''. d < c})" and
    nth: "\<forall>i < length ''BAC''. dict_get n (''BAC'' ! i) = Inr (row ! i)"
    by blast
  have ev: "process_token_chains ''BAC'' =
      Inr ([(CHR ''A'', 0), (CHR ''B'', 1), (CHR ''C'', 2)],
           [(CHR ''A'', 1), (CHR ''B'', 0), (CHR ''C'', 2)],
           [(CHR ''A'', 1), (CHR ''B'', 0), (CHR ''C'', 2)], [[1, 0, 2]])"
    by code_simp
  from r ev have n: "n = [(CHR ''A'', 0), (CHR ''B'', 1), (CHR ''C'', 2)]" and row: "row = [1, 0, 2]"
    by simp_all
  have mem: "CHR ''C'' \<in> set ''BAC''" and len: "(2::nat) < length ''BAC''" by simp_all
  from rank mem have c: "dict_get n (CHR ''C'') = Inr (card {d \<in> set ''BAC''. d < CHR ''C''})"
    by blast
  have g: "dict_get n (CHR ''C'') = Inr 2" by (simp add: n dict_get_def)
  from c g have k: "card {d \<in> set ''BAC''. d < CHR ''C''} = 2" by simp
  from nth len have "dict_get n (''BAC'' ! 2) = Inr (row ! 2)" by blast
  with r g k row mem len show ?thesis by blast
qed

text \<open>
  C3. The three dictionaries have as many keys as the input has distinct labels; the
  recorded first position of a label is the least index holding it and the recorded last
  position the greatest, so first \<open>\<le>\<close> last, with equality for a label that occurs
  once; on \<open>"ABABAB"\<close> the result is first 0, last 4 for A and first 1, last 5 for B
\<close>

theorem process_token_chains_first_last:
  "(\<exists>n s e nums. process_token_chains xs = Inr (n, s, e, nums) \<and>
      distinct (map fst n) \<and> distinct (map fst s) \<and> distinct (map fst e) \<and>
      length n = card (set xs) \<and> length s = card (set xs) \<and> length e = card (set xs) \<and>
      (\<forall>c \<in> set xs. \<exists>f l. dict_get s c = Inr f \<and> dict_get e c = Inr l \<and>
          f < length xs \<and> xs ! f = c \<and> l < length xs \<and> xs ! l = c \<and>
          (\<forall>i < length xs. xs ! i = c \<longrightarrow> f \<le> i \<and> i \<le> l) \<and>
          f \<le> l \<and> (count_list xs c = 1 \<longrightarrow> f = l)))
   \<and> (\<exists>n nums. process_token_chains ''ABABAB'' =
          Inr (n, [(CHR ''A'', 0), (CHR ''B'', 1)], [(CHR ''A'', 4), (CHR ''B'', 5)], nums))"
proof (intro conjI)
  let ?u = "np_unique xs"
  let ?n = "zip ?u [0..<card (set xs)]"
  let ?s = "map (\<lambda>c. (c, hd (np_where_eq xs c))) ?u"
  let ?e = "map (\<lambda>c. (c, last (np_where_eq xs c))) ?u"
  have keys: "map fst ?n = ?u" "map fst ?s = ?u" "map fst ?e = ?u"
    by (simp_all add: keys_zip_upt length_np_unique comp_def)
  have lens: "length ?n = card (set xs)" "length ?s = card (set xs)" "length ?e = card (set xs)"
    by (simp_all add: length_np_unique)
  have pos: "\<exists>f l. dict_get ?s c = Inr f \<and> dict_get ?e c = Inr l \<and>
          f < length xs \<and> xs ! f = c \<and> l < length xs \<and> xs ! l = c \<and>
          (\<forall>i < length xs. xs ! i = c \<longrightarrow> f \<le> i \<and> i \<le> l) \<and>
          f \<le> l \<and> (count_list xs c = 1 \<longrightarrow> f = l)" if c: "c \<in> set xs" for c
  proof -
    let ?f = "hd (np_where_eq xs c)" and ?l = "last (np_where_eq xs c)"
    have cu: "c \<in> set ?u" using c by (simp add: set_np_unique)
    have s: "dict_get ?s c = Inr ?f"
      by (simp add: dict_get_def map_of_graph [OF distinct_np_unique cu])
    have e: "dict_get ?e c = Inr ?l"
      by (simp add: dict_get_def map_of_graph [OF distinct_np_unique cu])
    note h = hd_np_where_eq [OF c] and l = last_np_where_eq [OF c]
    have fl: "?f \<le> ?l" using h l by blast
    show ?thesis
      using s e h l fl once_hd_last [of xs c] by blast
  qed
  show "\<exists>n s e nums. process_token_chains xs = Inr (n, s, e, nums) \<and>
      distinct (map fst n) \<and> distinct (map fst s) \<and> distinct (map fst e) \<and>
      length n = card (set xs) \<and> length s = card (set xs) \<and> length e = card (set xs) \<and>
      (\<forall>c \<in> set xs. \<exists>f l. dict_get s c = Inr f \<and> dict_get e c = Inr l \<and>
          f < length xs \<and> xs ! f = c \<and> l < length xs \<and> xs ! l = c \<and>
          (\<forall>i < length xs. xs ! i = c \<longrightarrow> f \<le> i \<and> i \<le> l) \<and>
          f \<le> l \<and> (count_list xs c = 1 \<longrightarrow> f = l))"
    apply (rule exI [of _ ?n], rule exI [of _ ?s], rule exI [of _ ?e])
    apply (rule exI [of _ "[map (\<lambda>c. the (map_of ?n c)) xs]"])
    apply (intro conjI)
           apply (rule process_token_chains_closed)
    using keys lens distinct_np_unique [of xs] pos
          apply (simp_all only:)
    apply blast
    done
next
  have "process_token_chains ''ABABAB'' =
      Inr ([(CHR ''A'', 0), (CHR ''B'', 1)], [(CHR ''A'', 0), (CHR ''B'', 1)],
           [(CHR ''A'', 4), (CHR ''B'', 5)], [[0, 1, 0, 1, 0, 1]])"
    by code_simp
  then show "\<exists>n nums. process_token_chains ''ABABAB'' =
          Inr (n, [(CHR ''A'', 0), (CHR ''B'', 1)], [(CHR ''A'', 4), (CHR ''B'', 5)], nums)"
    by blast
qed

theorem process_token_chains_first_last_witness:
  "CHR ''B'' \<in> set ''ABA'' \<and> count_list ''ABA'' (CHR ''B'') = 1 \<and> (1::nat) < length ''ABA'' \<and>
   (\<exists>n s e nums. process_token_chains ''ABA'' = Inr (n, s, e, nums) \<and>
      length s = 2 \<and> card (set ''ABA'') = 2 \<and>
      dict_get s (CHR ''B'') = Inr 1 \<and> dict_get e (CHR ''B'') = Inr 1 \<and>
      dict_get s (CHR ''A'') = Inr 0 \<and> dict_get e (CHR ''A'') = Inr 2)"
proof -
  from process_token_chains_first_last [of "''ABA''"] obtain n s e nums where
    r: "process_token_chains ''ABA'' = Inr (n, s, e, nums)" and
    len: "length s = card (set ''ABA'')" and
    pos: "\<forall>c \<in> set ''ABA''. \<exists>f l. dict_get s c = Inr f \<and> dict_get e c = Inr l \<and>
          f < length ''ABA'' \<and> ''ABA'' ! f = c \<and> l < length ''ABA'' \<and> ''ABA'' ! l = c \<and>
          (\<forall>i < length ''ABA''. ''ABA'' ! i = c \<longrightarrow> f \<le> i \<and> i \<le> l) \<and>
          f \<le> l \<and> (count_list ''ABA'' c = 1 \<longrightarrow> f = l)"
    by blast
  have mem: "CHR ''B'' \<in> set ''ABA''" and once: "count_list ''ABA'' (CHR ''B'') = 1"
    and one: "(1::nat) < length ''ABA''" and at: "''ABA'' ! 1 = CHR ''B''"
    by simp_all
  from pos mem obtain f l where
    f: "dict_get s (CHR ''B'') = Inr f" and l: "dict_get e (CHR ''B'') = Inr l" and
    bnd: "\<forall>i < length ''ABA''. ''ABA'' ! i = CHR ''B'' \<longrightarrow> f \<le> i \<and> i \<le> l" and
    eq: "count_list ''ABA'' (CHR ''B'') = 1 \<longrightarrow> f = l"
    by blast
  from eq once have "f = l" by blast
  moreover from bnd one at have "f \<le> 1 \<and> 1 \<le> l" by blast
  ultimately have "f = 1" "l = 1" by simp_all
  with f l have b: "dict_get s (CHR ''B'') = Inr 1" "dict_get e (CHR ''B'') = Inr 1"
    by simp_all
  have ev: "process_token_chains ''ABA'' =
      Inr ([(CHR ''A'', 0), (CHR ''B'', 1)], [(CHR ''A'', 0), (CHR ''B'', 1)],
           [(CHR ''A'', 2), (CHR ''B'', 1)], [[0, 1, 0]])"
    by code_simp
  from r ev have s: "s = [(CHR ''A'', 0), (CHR ''B'', 1)]" and e: "e = [(CHR ''A'', 2), (CHR ''B'', 1)]"
    by auto
  have l2: "length s = 2" by (simp add: s)
  with len have card: "card (set ''ABA'') = 2" by simp
  have a: "dict_get s (CHR ''A'') = Inr 0" "dict_get e (CHR ''A'') = Inr 2"
    by (simp_all add: s e dict_get_def)
  from r l2 card mem once one a b show ?thesis by blast
qed

text \<open>
  C9. \<open>process_token_chains\<close> raises on no input: every label of the sequence is a key
  of \<open>chain_to_num\<close>, the array of positions of every unique label is not empty, so that
  \<open>indices[0]\<close> and \<open>indices[-1]\<close> are in bounds, and the function returns
\<close>

theorem process_token_chains_total:
  "(\<forall>c \<in> set xs. \<exists>v. dict_get (make_chain_to_num (np_unique xs)) c = Inr v) \<and>
   (\<forall>c \<in> set (np_unique xs).
       np_where_eq xs c \<noteq> [] \<and>
       (\<exists>i. index_first (np_where_eq xs c) = Inr i) \<and>
       (\<exists>j. index_last (np_where_eq xs c) = Inr j)) \<and>
   (\<exists>r. process_token_chains xs = Inr r)"
proof (intro conjI ballI)
  fix c assume "c \<in> set xs"
  then show "\<exists>v. dict_get (make_chain_to_num (np_unique xs)) c = Inr v"
    by (simp add: make_chain_to_num_zip distinct_np_unique length_np_unique dict_get_def
        chain_to_num_rank)
next
  fix c assume "c \<in> set (np_unique xs)"
  then have "c \<in> set xs" by (simp add: set_np_unique)
  then show "np_where_eq xs c \<noteq> []" by (rule np_where_eq_nonempty)
  then show "\<exists>i. index_first (np_where_eq xs c) = Inr i"
    by (cases "np_where_eq xs c") (simp_all add: index_first_def)
  show "\<exists>j. index_last (np_where_eq xs c) = Inr j"
    using \<open>np_where_eq xs c \<noteq> []\<close> by (simp add: index_last_def)
next
  show "\<exists>r. process_token_chains xs = Inr r"
    by (simp add: process_token_chains_closed)
qed

theorem process_token_chains_total_witness:
  "CHR ''A'' \<in> set ''BAB'' \<and> CHR ''A'' \<in> set (np_unique ''BAB'') \<and>
   dict_get (make_chain_to_num (np_unique ''BAB'')) (CHR ''A'') = Inr 0 \<and>
   np_where_eq ''BAB'' (CHR ''A'') = [1] \<and>
   (\<exists>r. process_token_chains ''BAB'' = Inr r)"
proof -
  note t = process_token_chains_total [of "''BAB''"]
  from t obtain r where r: "process_token_chains ''BAB'' = Inr r" by blast
  have mem: "CHR ''A'' \<in> set ''BAB''" by simp
  have u: "np_unique ''BAB'' = ''AB''" by code_simp
  have memu: "CHR ''A'' \<in> set (np_unique ''BAB'')" by (simp add: u)
  from t memu have "np_where_eq ''BAB'' (CHR ''A'') \<noteq> []" by blast
  have w: "np_where_eq ''BAB'' (CHR ''A'') = [1]" by code_simp
  have g: "dict_get (make_chain_to_num (np_unique ''BAB'')) (CHR ''A'') = Inr 0" by code_simp
  from r mem memu w g show ?thesis by blast
qed

text \<open>
  C10. The three dictionaries have the same keys, the distinct labels of the input,
  and \<open>chain_to_num\<close> maps them one-to-one onto \<open>0, ..., k - 1\<close>, \<open>k\<close> the number of
  distinct labels
\<close>

theorem process_token_chains_keys:
  "\<exists>n s e nums. process_token_chains xs = Inr (n, s, e, nums) \<and>
      fst ` set n = set xs \<and> fst ` set s = set xs \<and> fst ` set e = set xs \<and>
      distinct (map fst n) \<and> distinct (map fst s) \<and> distinct (map fst e) \<and>
      snd ` set n = {0..<card (set xs)} \<and>
      bij_betw (\<lambda>c. the (map_of n c)) (set xs) {0..<card (set xs)}"
proof -
  let ?u = "np_unique xs" and ?k = "card (set xs)"
  let ?n = "zip ?u [0..<?k]"
  let ?s = "map (\<lambda>c. (c, hd (np_where_eq xs c))) ?u"
  let ?e = "map (\<lambda>c. (c, last (np_where_eq xs c))) ?u"
  have keys: "map fst ?n = ?u" "map fst ?s = ?u" "map fst ?e = ?u"
    by (simp_all add: keys_zip_upt length_np_unique comp_def)
  have ksets: "fst ` set ?n = set xs" "fst ` set ?s = set xs" "fst ` set ?e = set xs"
    using keys set_np_unique [of xs] by (metis set_map)+
  have dist: "distinct (map fst ?n)" "distinct (map fst ?s)" "distinct (map fst ?e)"
    using keys distinct_np_unique [of xs] by simp_all
  have "map snd ?n = [0..<?k]"
    by (simp add: vals_zip_upt length_np_unique)
  then have vals: "snd ` set ?n = {0..<?k}"
    by (metis set_map set_upt)
  have inj: "inj_on (\<lambda>c. the (map_of ?n c)) (set xs)"
  proof (rule inj_onI)
    fix a b assume a: "a \<in> set xs" and b: "b \<in> set xs"
      and eq: "the (map_of ?n a) = the (map_of ?n b)"
    from a obtain i where i: "i < length ?u" "?u ! i = a"
      by (metis in_set_conv_nth set_np_unique)
    from b obtain j where j: "j < length ?u" "?u ! j = b"
      by (metis in_set_conv_nth set_np_unique)
    have "map_of ?n a = Some i" "map_of ?n b = Some j"
      using map_of_zip_upt_nth [OF distinct_np_unique i(1)]
        map_of_zip_upt_nth [OF distinct_np_unique j(1)] i j
      by (simp_all add: length_np_unique)
    with eq i j show "a = b" by simp
  qed
  have img: "(\<lambda>c. the (map_of ?n c)) ` set xs = {0..<?k}"
  proof (intro set_eqI iffI)
    fix v assume "v \<in> (\<lambda>c. the (map_of ?n c)) ` set xs"
    then obtain c where c: "c \<in> set xs" "v = the (map_of ?n c)" by blast
    then obtain i where i: "i < length ?u" "?u ! i = c"
      by (metis in_set_conv_nth set_np_unique)
    have "map_of ?n c = Some i"
      using map_of_zip_upt_nth [OF distinct_np_unique i(1)] i by (simp add: length_np_unique)
    with c i show "v \<in> {0..<?k}" by (simp add: length_np_unique)
  next
    fix v assume "v \<in> {0..<?k}"
    then have v: "v < length ?u" by (simp add: length_np_unique)
    then have "?u ! v \<in> set xs" by (metis nth_mem set_np_unique)
    moreover have "map_of ?n (?u ! v) = Some v"
      using map_of_zip_upt_nth [OF distinct_np_unique v] by (simp add: length_np_unique)
    ultimately show "v \<in> (\<lambda>c. the (map_of ?n c)) ` set xs"
      by (metis image_eqI option.sel)
  qed
  have bij: "bij_betw (\<lambda>c. the (map_of ?n c)) (set xs) {0..<?k}"
    using inj img by (simp add: bij_betw_def)
  from ksets dist vals bij show ?thesis
    by (simp only: process_token_chains_closed sum.inject prod.inject ex_simps simp_thms) blast
qed

section \<open>Properties of the script\<close>

subsection \<open>Loading\<close>

lemma length_json_name_full: "length (json_name_full name) = 5"
  by (simp add: json_name_full_def)

lemma length_json_name_confidence: "length (json_name_confidence name) = 5"
  by (simp add: json_name_confidence_def)

lemma load_all_Inr:
  "load_all fs ps = (tried, Inr vs) \<Longrightarrow>
     tried = ps \<and> length vs = length ps \<and> (\<forall>i < length ps. json_load_open fs (ps ! i) = Inr (vs ! i))"
proof (induction ps arbitrary: tried vs)
  case Nil
  then show ?case by simp
next
  case (Cons p ps)
  from Cons.prems obtain v tried' vs' where
    v: "json_load_open fs p = Inr v" and r: "load_all fs ps = (tried', Inr vs')"
    and eq: "tried = p # tried'" "vs = v # vs'"
    by (auto split: sum.splits prod.splits)
  from Cons.IH [OF r] have ih: "tried' = ps" "length vs' = length ps"
    "\<forall>i < length ps. json_load_open fs (ps ! i) = Inr (vs' ! i)" by simp_all
  show ?case
  proof (intro conjI allI impI)
    show "tried = p # ps" using eq ih by simp
    show "length vs = length (p # ps)" using eq ih by simp
    fix i assume "i < length (p # ps)"
    then show "json_load_open fs ((p # ps) ! i) = Inr (vs ! i)"
      using v ih(3) eq by (cases i) simp_all
  qed
qed

lemma load_all_missing:
  "p \<in> set ps \<Longrightarrow> json_load_open fs p = Inl err \<Longrightarrow> \<exists>tried e. load_all fs ps = (tried, Inl e)"
proof (rule ccontr)
  assume p: "p \<in> set ps" and e: "json_load_open fs p = Inl err"
    and "\<not> (\<exists>tried e. load_all fs ps = (tried, Inl e))"
  then obtain tried vs where r: "load_all fs ps = (tried, Inr vs)"
    by (metis old.prod.exhaust old.sum.exhaust)
  from p obtain i where "i < length ps" "ps ! i = p" by (auto simp: in_set_conv_nth)
  with load_all_Inr [OF r] e show False by auto
qed

subsection \<open>The claims about the guard and the loader\<close>

text \<open>
  C7. Without a directory argument the script prints the usage line and exits with
  status 1; it opens no file and saves none, whatever function the guard would call and
  whatever the file system holds: \<open>main\<close> is not entered
\<close>

theorem guard_usage:
  "length argv < 2 \<Longrightarrow>
     guard main_fn argv fs =
       \<lparr>stdout = [usage], exit_status = 1, io = \<lparr>opened = [], saved = [], raised = None\<rparr>\<rparr>
     \<and> script argv (fs' :: ('l::linorder, 'p) filesystem) =
       \<lparr>stdout = [usage], exit_status = 1, io = \<lparr>opened = [], saved = [], raised = None\<rparr>\<rparr>"
  by (simp add: guard_def script_def)

theorem guard_usage_witness:
  "length [''vis_pae.py''] < 2 \<and>
   script [''vis_pae.py''] fs_complete =
     \<lparr>stdout = [''Usage: python vis_pae.py <alphafold_prediction_directory>''], exit_status = 1,
      io = \<lparr>opened = [], saved = [], raised = None\<rparr>\<rparr>"
proof -
  have h: "length [''vis_pae.py''] < 2" by simp
  from guard_usage [OF h, of main fs_complete fs_complete] h show ?thesis
    by (simp add: usage_def)
qed

text \<open>
  C1 (as stated). With the two files of model 0 present and well formed, so that model 0
  alone renders, and the full-data file of model 1 missing, the script is claimed to save
  \<open>figure_pae_0.png\<close> before it fails. It saves nothing: all ten files are loaded before
  the loop starts
\<close>

theorem figure_0_before_failure_counterexample:
  "json_load_open fs_model0_only (json_name_full ''d'' ! 0) = Inr (JObject sample_full) \<and>
   json_load_open fs_model0_only (json_name_confidence ''d'' ! 0) = Inr (JObject sample_confidence) \<and>
   map_sum id fst (render_model ''d'' 0 (JObject sample_full) (JObject sample_confidence))
     = Inr ''d/figure_pae_0.png'' \<and>
   fs_model0_only (json_name_full ''d'' ! 1) = None \<and>
   ''d/figure_pae_0.png'' \<notin> fst ` set (saved (io (script [''vis_pae.py'', ''d''] fs_model0_only)))"
  by code_simp

text \<open>
  C1 (amended). When a file of model 1 is missing the script fails while loading, before any
  model is rendered: no figure is saved, not even \<open>figure_pae_0.png\<close>, an error is raised
  and the exit status is 1
\<close>

theorem missing_file_no_figure:
  assumes "fs (json_name_full name ! 1) = None \<or> fs (json_name_confidence name ! 1) = None"
  shows "saved (io (script (prog # name # extra) fs)) = [] \<and>
         raised (io (script (prog # name # extra) fs)) \<noteq> None \<and>
         exit_status (script (prog # name # extra) fs) = 1"
proof -
  have m: "saved (main name fs) = [] \<and> raised (main name fs) \<noteq> None"
  proof (cases "fs (json_name_full name ! 1) = None")
    case True
    then have "json_load_open fs (json_name_full name ! 1) = Inl FileNotFoundError"
      by (simp add: json_load_open_def)
    moreover have "json_name_full name ! 1 \<in> set (json_name_full name)"
      by (rule nth_mem) (simp add: length_json_name_full)
    ultimately obtain tried e where "load_all fs (json_name_full name) = (tried, Inl e)"
      using load_all_missing by blast
    then show ?thesis by (simp add: main_def)
  next
    case False
    with assms have "fs (json_name_confidence name ! 1) = None" by blast
    then have "json_load_open fs (json_name_confidence name ! 1) = Inl FileNotFoundError"
      by (simp add: json_load_open_def)
    moreover have "json_name_confidence name ! 1 \<in> set (json_name_confidence name)"
      by (rule nth_mem) (simp add: length_json_name_confidence)
    ultimately obtain tried e where
      c: "load_all fs (json_name_confidence name) = (tried, Inl e)"
      using load_all_missing by blast
    show ?thesis
    proof (cases "load_all fs (json_name_full name)")
      case (Pair tried1 r)
      with c show ?thesis by (cases r) (simp_all add: main_def)
    qed
  qed
  then show ?thesis by (auto simp: script_def guard_def Let_def)
qed

theorem missing_file_no_figure_witness:
  "fs_model0_only (json_name_full ''d'' ! 1) = None \<and>
   saved (io (script [''vis_pae.py'', ''d''] fs_model0_only)) = [] \<and>
   raised (io (script [''vis_pae.py'', ''d''] fs_model0_only)) \<noteq> None \<and>
   exit_status (script [''vis_pae.py'', ''d''] fs_model0_only) = 1"
proof -
  have h: "fs_model0_only (json_name_full ''d'' ! 1) = None" by code_simp
  then have "fs_model0_only (json_name_full ''d'' ! 1) = None \<or>
      fs_model0_only (json_name_confidence ''d'' ! 1) = None" by (rule disjI1)
  from missing_file_no_figure [OF this, of "''vis_pae.py''" "[]"] h show ?thesis by simp
qed

subsection \<open>Unused inputs\<close>

lemma xticks_loop_integers:
  "list_all is_integer res \<Longrightarrow> \<forall>i \<in> set is. i < length res \<Longrightarrow>
     \<exists>t. xticks_loop res is acc = Inr t"
proof (induction "is" arbitrary: acc)
  case Nil
  then show ?case by (cases acc) simp
next
  case (Cons i "is")
  then have "is_integer (res ! i)" by (simp add: list_all_length)
  then obtain n where n: "res ! i = ResInt n"
    by (cases "res ! i") (simp_all add: is_integer_def)
  obtain loc present where acc: "acc = (loc, present)" by (cases acc)
  from Cons.prems have rest: "\<forall>i \<in> set is. i < length res" by simp
  show ?case
    using Cons.IH [OF Cons.prems(1) rest] n acc by (simp add: mod_200_def)
qed

lemma xticks_integers: "list_all is_integer res \<Longrightarrow> \<exists>t. xticks res = Inr t"
  unfolding xticks_def by (rule xticks_loop_integers) simp_all

lemma render_model_res_ids:
  assumes "token_res_ids a = Some r" "xticks r = Inr t" "xticks r' = Inr t'"
  shows "render_model name m (JObject a) c =
         render_model name m (JObject (a\<lparr>token_res_ids := Some r'\<rparr>)) c"
  using assms
  by (simp add: render_model_def split: json.splits option.splits sum.splits prod.splits)

lemma render_model_confidence:
  "render_model name m v (JObject a) = render_model name m v (JObject b)"
  by (simp add: render_model_def split: json.splits)

lemma render_model_dead_inputs:
  assumes "full_rel v v'" "conf_rel c c'"
  shows "render_model name m v c = render_model name m v' c'"
proof -
  have f: "render_model name m v c = render_model name m v' c"
  proof (cases "v = v'")
    case True
    then show ?thesis by simp
  next
    case False
    with assms(1) obtain a r r' where a: "v = JObject a" "token_res_ids a = Some r"
      "list_all is_integer r" "list_all is_integer r'" "v' = JObject (a\<lparr>token_res_ids := Some r'\<rparr>)"
      unfolding full_rel_def by blast
    from xticks_integers [OF a(3)] xticks_integers [OF a(4)] obtain t t' where
      "xticks r = Inr t" "xticks r' = Inr t'" by blast
    with a show ?thesis by (simp add: render_model_res_ids [of a r t r' t'])
  qed
  have "render_model name m v' c = render_model name m v' c'"
    using assms(2) unfolding conf_rel_def by (auto simp: render_model_confidence)
  with f show ?thesis by simp
qed

lemma load_all_related:
  assumes "list_all (\<lambda>p. fs p = fs' p \<or>
     (\<exists>v w. fs p = Some (Json v) \<and> fs' p = Some (Json w) \<and> R v w)) ps"
    and "\<And>v. R v v"
  shows "fst (load_all fs ps) = fst (load_all fs' ps) \<and>
     (case (snd (load_all fs ps), snd (load_all fs' ps)) of
        (Inl e, Inl e') \<Rightarrow> e = e'
      | (Inr vs, Inr ws) \<Rightarrow> list_all2 R vs ws
      | _ \<Rightarrow> False)"
  using assms(1)
proof (induction ps)
  case Nil
  then show ?case by simp
next
  case (Cons p ps)
  then have ih: "fst (load_all fs ps) = fst (load_all fs' ps) \<and>
     (case (snd (load_all fs ps), snd (load_all fs' ps)) of
        (Inl e, Inl e') \<Rightarrow> e = e'
      | (Inr vs, Inr ws) \<Rightarrow> list_all2 R vs ws
      | _ \<Rightarrow> False)" by simp
  from Cons.prems have
    hd: "fs p = fs' p \<or> (\<exists>v w. fs p = Some (Json v) \<and> fs' p = Some (Json w) \<and> R v w)"
    by simp
  then have step: "(\<exists>e. json_load_open fs p = Inl e \<and> json_load_open fs' p = Inl e) \<or>
      (\<exists>v w. json_load_open fs p = Inr v \<and> json_load_open fs' p = Inr w \<and> R v w)"
  proof
    assume eq: "fs p = fs' p"
    then have "json_load_open fs p = json_load_open fs' p" by (simp add: json_load_open_def)
    then show ?thesis using assms(2) by (cases "json_load_open fs' p") auto
  next
    assume "\<exists>v w. fs p = Some (Json v) \<and> fs' p = Some (Json w) \<and> R v w"
    then show ?thesis by (auto simp: json_load_open_def)
  qed
  then show ?case
  proof
    assume "\<exists>e. json_load_open fs p = Inl e \<and> json_load_open fs' p = Inl e"
    then show ?thesis by auto
  next
    assume "\<exists>v w. json_load_open fs p = Inr v \<and> json_load_open fs' p = Inr w \<and> R v w"
    then obtain v w where "json_load_open fs p = Inr v" "json_load_open fs' p = Inr w" "R v w"
      by blast
    with ih show ?thesis
      by (cases "load_all fs ps"; cases "load_all fs' ps")
        (auto split: sum.splits)
  qed
qed

lemma main_loop_related:
  assumes "list_all2 full_rel fulls fulls'" "list_all2 conf_rel confs confs'"
    and "\<forall>m \<in> set ms. m < length fulls \<and> m < length confs"
  shows "main_loop name fulls confs ms figs = main_loop name fulls' confs' ms figs"
  using assms(3)
proof (induction ms arbitrary: figs)
  case Nil
  then show ?case by simp
next
  case (Cons m ms)
  then have m: "m < length fulls" "m < length confs" by simp_all
  have "full_rel (fulls ! m) (fulls' ! m)" "conf_rel (confs ! m) (confs' ! m)"
    using assms(1,2) m by (simp_all add: list_all2_nthD)
  then have "render_model name m (fulls ! m) (confs ! m) =
      render_model name m (fulls' ! m) (confs' ! m)"
    by (rule render_model_dead_inputs)
  with Cons show ?case by (simp split: sum.splits)
qed


lemma object_of_Some: "object_of f = Some a \<longleftrightarrow> f = Some (Json (JObject a))"
  by (simp add: object_of_def split: option.splits disk_file.splits json.splits)

lemma same_but_integer_res_ids_rel:
  assumes "same_but_integer_res_ids f g"
  shows "f = g \<or> (\<exists>v w. f = Some (Json v) \<and> g = Some (Json w) \<and> full_rel v w)"
proof (cases "f = g")
  case True
  then show ?thesis by simp
next
  case False
  with assms obtain a b r r' where "object_of f = Some a" "object_of g = Some b"
    "token_res_ids a = Some r" "list_all is_integer r" "list_all is_integer r'"
    "b = a\<lparr>token_res_ids := Some r'\<rparr>"
    unfolding same_but_integer_res_ids_def
    by (auto split: option.splits)
  then have "f = Some (Json (JObject a))" "g = Some (Json (JObject b))"
    "full_rel (JObject a) (JObject b)"
    unfolding full_rel_def by (auto simp: object_of_Some)
  then show ?thesis by blast
qed

lemma is_object_rel:
  assumes "is_object f" "is_object g"
  shows "\<exists>v w. f = Some (Json v) \<and> g = Some (Json w) \<and> conf_rel v w"
proof -
  from assms obtain a b where "object_of f = Some a" "object_of g = Some b"
    by (auto simp: is_object_def)
  then have "f = Some (Json (JObject a))" "g = Some (Json (JObject b))"
    by (simp_all add: object_of_Some)
  then show ?thesis unfolding conf_rel_def by blast
qed

lemma main_dead_inputs:
  assumes "dead_inputs_well_typed name fs fs'"
  shows "main name fs = main name fs'"
proof -
  have f: "list_all (\<lambda>p. fs p = fs' p \<or>
      (\<exists>v w. fs p = Some (Json v) \<and> fs' p = Some (Json w) \<and> full_rel v w)) (json_name_full name)"
    using assms unfolding dead_inputs_well_typed_def list_all_iff
    by (blast dest: same_but_integer_res_ids_rel)
  have c: "list_all (\<lambda>p. fs p = fs' p \<or>
      (\<exists>v w. fs p = Some (Json v) \<and> fs' p = Some (Json w) \<and> conf_rel v w))
      (json_name_confidence name)"
    using assms unfolding dead_inputs_well_typed_def list_all_iff
    by (blast dest: is_object_rel)
  note lf = load_all_related [of fs fs' full_rel, OF f] and lc = load_all_related [of fs fs' conf_rel, OF c]
  have rf: "\<And>v. full_rel v v" and rc: "\<And>v. conf_rel v v"
    by (simp_all add: full_rel_def conf_rel_def)
  obtain t1 r1 where a1: "load_all fs (json_name_full name) = (t1, r1)" by force
  obtain t1' r1' where a1': "load_all fs' (json_name_full name) = (t1', r1')" by force
  obtain t2 r2 where a2: "load_all fs (json_name_confidence name) = (t2, r2)" by force
  obtain t2' r2' where a2': "load_all fs' (json_name_confidence name) = (t2', r2')" by force
  from lf [OF rf] a1 a1' have t1: "t1' = t1" and
    r1: "case (r1, r1') of (Inl e, Inl e') \<Rightarrow> e = e' | (Inr vs, Inr ws) \<Rightarrow> list_all2 full_rel vs ws
         | _ \<Rightarrow> False"
    by simp_all
  from lc [OF rc] a2 a2' have t2: "t2' = t2" and
    r2: "case (r2, r2') of (Inl e, Inl e') \<Rightarrow> e = e' | (Inr vs, Inr ws) \<Rightarrow> list_all2 conf_rel vs ws
         | _ \<Rightarrow> False"
    by simp_all
  show ?thesis
  proof (cases r1)
    case (Inl e)
    with r1 have "r1' = Inl e" by (cases r1') simp_all
    with Inl a1 a1' t1 show ?thesis by (simp add: main_def)
  next
    case (Inr fulls)
    with r1 obtain fulls' where f': "r1' = Inr fulls'" and fr: "list_all2 full_rel fulls fulls'"
      by (cases r1') simp_all
    have lenf: "length fulls = 5"
      using load_all_Inr [of fs "json_name_full name" t1 fulls] a1 Inr
      by (simp add: length_json_name_full)
    show ?thesis
    proof (cases r2)
      case (Inl e)
      with r2 have "r2' = Inl e" by (cases r2') simp_all
      with Inl Inr f' a1 a1' a2 a2' t1 t2 show ?thesis by (simp add: main_def)
    next
      case c: (Inr confs)
      with r2 obtain confs' where c': "r2' = Inr confs'" and cr: "list_all2 conf_rel confs confs'"
        by (cases r2') simp_all
      have lenc: "length confs = 5"
        using load_all_Inr [of fs "json_name_confidence name" t2 confs] a2 c
        by (simp add: length_json_name_confidence)
      have "main_loop name fulls confs [0..<5] [] = main_loop name fulls' confs' [0..<5] []"
        by (rule main_loop_related [OF fr cr]) (simp add: lenf lenc)
      with Inr c f' c' a1 a1' a2 a2' t1 t2 show ?thesis by (simp add: main_def)
    qed
  qed
qed

text \<open>
  C8 (as stated). Two runs whose confidence files both parse and whose lists of residue
  ids have the same length are claimed to save the same figures. The run on the complete
  directory saves five. With a JSON array as the confidence file of model 0 the call
  \<open>.keys()\<close> raises \<open>AttributeError\<close> and no figure is saved; with \<open>null\<close> in place of the
  last residue id \<open>token_res_ids[i] % 200\<close> raises \<open>TypeError\<close> and no figure is saved
\<close>

theorem confidence_contents_counterexample:
  "dead_inputs_as_claimed ''d'' fs_complete fs_confidence_array \<and>
   parses (fs_complete (json_name_confidence ''d'' ! 0)) \<and>
   parses (fs_confidence_array (json_name_confidence ''d'' ! 0)) \<and>
   length (saved (io (script [''vis_pae.py'', ''d''] fs_complete))) = 5 \<and>
   saved (io (script [''vis_pae.py'', ''d''] fs_confidence_array)) = [] \<and>
   raised (io (script [''vis_pae.py'', ''d''] fs_confidence_array)) = Some AttributeError \<and>
   dead_inputs_as_claimed ''d'' fs_complete fs_null_res_id \<and>
   saved (io (script [''vis_pae.py'', ''d''] fs_null_res_id)) = [] \<and>
   raised (io (script [''vis_pae.py'', ''d''] fs_null_res_id)) = Some TypeError"
  by code_simp

text \<open>
  C8 (amended). Two runs that differ only in the contents of the confidence files, both
  parsing to JSON objects, and in the values of \<open>token_res_ids\<close>, of the same length and
  all integers, have the same outcome: the same figures saved, the same files opened, the
  same error and exit status
\<close>

theorem dead_inputs_do_not_show:
  "dead_inputs_well_typed name fs fs' \<Longrightarrow>
     script (prog # name # extra) fs = script (prog # name # extra) fs'"
  by (simp add: script_def guard_def main_dead_inputs)

theorem dead_inputs_do_not_show_witness:
  "dead_inputs_well_typed ''d'' fs_complete fs_other_dead_inputs \<and>
   fs_complete (json_name_full ''d'' ! 0) \<noteq> fs_other_dead_inputs (json_name_full ''d'' ! 0) \<and>
   fs_complete (json_name_confidence ''d'' ! 0)
     \<noteq> fs_other_dead_inputs (json_name_confidence ''d'' ! 0) \<and>
   script [''vis_pae.py'', ''d''] fs_complete = script [''vis_pae.py'', ''d''] fs_other_dead_inputs \<and>
   length (saved (io (script [''vis_pae.py'', ''d''] fs_other_dead_inputs))) = 5"
proof -
  have h: "dead_inputs_well_typed ''d'' fs_complete fs_other_dead_inputs" by code_simp
  have d1: "fs_complete (json_name_full ''d'' ! 0) \<noteq> fs_other_dead_inputs (json_name_full ''d'' ! 0)"
    by code_simp
  have d2: "fs_complete (json_name_confidence ''d'' ! 0)
     \<noteq> fs_other_dead_inputs (json_name_confidence ''d'' ! 0)"
    by code_simp
  have n: "length (saved (io (script [''vis_pae.py'', ''d''] fs_complete))) = 5" by code_simp
  from dead_inputs_do_not_show [OF h, of "''vis_pae.py''" "[]"] h d1 d2 n show ?thesis by simp
qed

subsection \<open>The calls of a saved figure\<close>

lemma main_loop_saved:
  "main_loop name fulls confs ms figs = (out, r) \<Longrightarrow> fig \<in> set out \<Longrightarrow>
     fig \<in> set figs \<or> (\<exists>m \<in> set ms. render_model name m (fulls ! m) (confs ! m) = Inr fig)"
proof (induction ms arbitrary: figs)
  case Nil
  then show ?case by simp
next
  case (Cons m ms)
  show ?case
  proof (cases "render_model name m (fulls ! m) (confs ! m)")
    case (Inl e)
    with Cons.prems show ?thesis by simp
  next
    case (Inr f)
    with Cons.prems have "main_loop name fulls confs ms (figs @ [f]) = (out, r)" by simp
    from Cons.IH [OF this Cons.prems(2)] Inr show ?thesis by auto
  qed
qed

lemma main_saved_render:
  assumes "fig \<in> set (saved (main name fs))"
  shows "\<exists>m full conf. m < 5 \<and> fs (json_name_full name ! m) = Some (Json full) \<and>
           fs (json_name_confidence name ! m) = Some (Json conf) \<and>
           render_model name m full conf = Inr fig"
proof -
  obtain t1 r1 where a1: "load_all fs (json_name_full name) = (t1, r1)" by force
  obtain t2 r2 where a2: "load_all fs (json_name_confidence name) = (t2, r2)" by force
  from assms a1 obtain fulls where r1: "r1 = Inr fulls"
    by (cases r1) (simp_all add: main_def)
  from assms a1 a2 r1 obtain confs where r2: "r2 = Inr confs"
    by (cases r2) (simp_all add: main_def)
  obtain out r where l: "main_loop name fulls confs [0..<5] [] = (out, r)" by force
  with assms a1 a2 r1 r2 have "fig \<in> set out" by (simp add: main_def)
  from main_loop_saved [OF l this] obtain m where
    m: "m < 5" and rm: "render_model name m (fulls ! m) (confs ! m) = Inr fig" by auto
  from load_all_Inr [of fs "json_name_full name" t1 fulls] a1 r1 m
  have "json_load_open fs (json_name_full name ! m) = Inr (fulls ! m)"
    by (simp add: length_json_name_full)
  then have f: "fs (json_name_full name ! m) = Some (Json (fulls ! m))"
    by (auto simp: json_load_open_def split: option.splits disk_file.splits)
  from load_all_Inr [of fs "json_name_confidence name" t2 confs] a2 r2 m
  have "json_load_open fs (json_name_confidence name ! m) = Inr (confs ! m)"
    by (simp add: length_json_name_confidence)
  then have c: "fs (json_name_confidence name ! m) = Some (Json (confs ! m))"
    by (auto simp: json_load_open_def split: option.splits disk_file.splits)
  from m f c rm show ?thesis by blast
qed

lemma comprehension_total:
  "(\<And>x. x \<in> set xs \<Longrightarrow> f x = Inr (g x)) \<Longrightarrow> comprehension f xs = Inr (map g xs)"
  by (induction xs) simp_all

lemma render_model_Inr:
  assumes "render_model name m full conf = Inr (path, calls)"
  shows "\<exists>ob co ids res t pa. full = JObject ob \<and> conf = JObject co \<and>
           token_chain_ids ob = Some ids \<and> token_res_ids ob = Some res \<and>
           xticks res = Inr t \<and> pae ob = Some pa"
proof -
  from assms obtain ob where ob: "full = JObject ob"
    by (cases full) (simp_all add: render_model_def)
  from assms ob obtain co where co: "conf = JObject co"
    by (cases conf) (simp_all add: render_model_def)
  from assms ob co obtain ids where ids: "token_chain_ids ob = Some ids"
    by (cases "token_chain_ids ob") (simp_all add: render_model_def)
  from assms ob co ids obtain res where res: "token_res_ids ob = Some res"
    by (cases "token_res_ids ob") (simp_all add: render_model_def split: sum.splits)
  from assms ob co ids res obtain t where t: "xticks res = Inr t"
    by (cases "xticks res") (simp_all add: render_model_def split: sum.splits)
  from assms ob co ids res t obtain pa where pa: "pae ob = Some pa"
    by (cases "pae ob") (simp_all add: render_model_def split: sum.splits prod.splits)
  from ob co ids res t pa show ?thesis by blast
qed

lemma label_calls_closed:
  assumes "c \<in> set xs"
  shows "label_calls (map (\<lambda>c. (c, hd (np_where_eq xs c))) (np_unique xs))
           (map (\<lambda>c. (c, last (np_where_eq xs c))) (np_unique xs)) c =
         Inr [Text AxTopbar
                ((of_nat (hd (np_where_eq xs c)) + of_nat (last (np_where_eq xs c))) / 2) 0 c
                ''#222222'' ''center'' ''center'',
              Text AxLeftbar 0
                ((of_nat (hd (np_where_eq xs c)) + of_nat (last (np_where_eq xs c))) / 2) c
                ''#222222'' ''center'' ''center'']"
proof -
  have cu: "c \<in> set (np_unique xs)" using assms by (simp add: set_np_unique)
  show ?thesis
    by (simp add: label_calls_def dict_get_def Let_def map_of_graph [OF distinct_np_unique cu])
qed

lemma render_model_closed:
  fixes ob :: "('l::linorder, 'p) json_object"
  assumes "token_chain_ids ob = Some ids" "token_res_ids ob = Some res" "xticks res = Inr t"
    "pae ob = Some pa"
  shows "render_model name m (JObject ob) (JObject co) =
     Inr (figure_name name m,
          [Subplots 4 4,
           ImshowPae pa ''Greens_r'' 0 30,
           SetYticks Ax [],
           SpinesStyle Ax ''--'' 1 ''k'',
           AppendAxes AxColorbar ''right'' ''5%'' (2 / 10),
           AppendAxes AxTopbar ''top'' ''8%'' (3 / 100),
           AppendAxes AxLeftbar ''left'' ''8%'' (3 / 100),
           ImshowChains AxTopbar
             [map (\<lambda>c. the (map_of (zip (np_unique ids) [0..<card (set ids)]) c)) ids]
             ''tab10'' ''auto'' (7 / 10)]
          @ hide_axes_frame AxTopbar
          @ [ImshowChains AxLeftbar
               (transpose
                  [map (\<lambda>c. the (map_of (zip (np_unique ids) [0..<card (set ids)]) c)) ids])
               ''tab10'' ''auto'' (7 / 10)]
          @ hide_axes_frame AxLeftbar
          @ [FigColorbar AxColorbar (''PAE ('' @ [CHR 0xC5] @ '')'')]
          @ boundary_calls (map (\<lambda>c. (c, hd (np_where_eq ids c))) (np_unique ids))
          @ concat (map (\<lambda>c.
               [Text AxTopbar
                  ((of_nat (hd (np_where_eq ids c)) + of_nat (last (np_where_eq ids c))) / 2) 0 c
                  ''#222222'' ''center'' ''center'',
                Text AxLeftbar 0
                  ((of_nat (hd (np_where_eq ids c)) + of_nat (last (np_where_eq ids c))) / 2) c
                  ''#222222'' ''center'' ''center'']) (np_unique ids))
          @ [Savefig (figure_name name m) 300 ''tight'' False])"
proof -
  let ?S = "map (\<lambda>c. (c, hd (np_where_eq ids c))) (np_unique ids)"
  let ?E = "map (\<lambda>c. (c, last (np_where_eq ids c))) (np_unique ids)"
  have keys: "map fst ?S = np_unique ids" by (simp add: comp_def)
  have "comprehension (label_calls ?S ?E) (map fst ?S) =
      (Inr :: ('l, 'p) call list list \<Rightarrow> py_error + ('l, 'p) call list list) (map (\<lambda>c.
               [Text AxTopbar
                  ((of_nat (hd (np_where_eq ids c)) + of_nat (last (np_where_eq ids c))) / 2) 0 c
                  ''#222222'' ''center'' ''center'',
                Text AxLeftbar 0
                  ((of_nat (hd (np_where_eq ids c)) + of_nat (last (np_where_eq ids c))) / 2) c
                  ''#222222'' ''center'' ''center'']) (np_unique ids))"
    unfolding keys by (rule comprehension_total) (simp add: label_calls_closed set_np_unique)
  then show ?thesis
    using assms
    unfolding render_model_def process_token_chains_closed
    by (simp split: prod.splits)
qed


lemma first_occurrence:
  assumes "c \<in> set xs"
  shows "hd (np_where_eq xs c) = i \<longleftrightarrow> i < length xs \<and> xs ! i = c \<and> c \<notin> set (take i xs)"
proof -
  let ?h = "hd (np_where_eq xs c)"
  note h = hd_np_where_eq [OF assms]
  have fresh: "c \<notin> set (take ?h xs)"
  proof
    assume "c \<in> set (take ?h xs)"
    then obtain j where j: "j < ?h" "j < length xs" "xs ! j = c"
      by (auto simp: in_set_conv_nth)
    with h have "?h \<le> j" by blast
    with j show False by simp
  qed
  show ?thesis
  proof
    assume "?h = i"
    with h fresh show "i < length xs \<and> xs ! i = c \<and> c \<notin> set (take i xs)" by blast
  next
    assume i: "i < length xs \<and> xs ! i = c \<and> c \<notin> set (take i xs)"
    with h have le: "?h \<le> i" by blast
    have "\<not> ?h < i"
    proof
      assume lt: "?h < i"
      then have "take i xs ! ?h = xs ! ?h" by simp
      moreover have "?h < length (take i xs)" using lt i by simp
      ultimately have "xs ! ?h \<in> set (take i xs)" by (metis nth_mem)
      with h i show False by simp
    qed
    with le show "?h = i" by simp
  qed
qed

lemma set_boundary_calls:
  "set (boundary_calls s) = (\<Union>(k, st) \<in> set s. if st \<noteq> 0 then set (separator_calls st) else {})"
  by (auto simp: boundary_calls_def split: if_splits)

lemma is_line_boundary_calls: "c \<in> set (boundary_calls s) \<Longrightarrow> is_line c \<and> \<not> is_text c"
  by (auto simp: set_boundary_calls separator_calls_def is_line_def is_text_def split: if_splits)

lemma saved_figure_calls:
  fixes fs :: "('l::linorder, 'p) filesystem"
  assumes "(path, calls) \<in> set (saved (main name fs))"
  shows "\<exists>m ob ids. m < 5 \<and> path = figure_name name m \<and>
      fs (json_name_full name ! m) = Some (Json (JObject ob)) \<and> token_chain_ids ob = Some ids \<and>
      filter is_line calls =
        boundary_calls (map (\<lambda>c. (c, hd (np_where_eq ids c))) (np_unique ids)) \<and>
      filter is_text calls =
        concat (map (\<lambda>c.
               [Text AxTopbar
                  ((of_nat (hd (np_where_eq ids c)) + of_nat (last (np_where_eq ids c))) / 2) 0 c
                  ''#222222'' ''center'' ''center'',
                Text AxLeftbar 0
                  ((of_nat (hd (np_where_eq ids c)) + of_nat (last (np_where_eq ids c))) / 2) c
                  ''#222222'' ''center'' ''center'']) (np_unique ids))"
proof -
  from main_saved_render [OF assms] obtain m full conf where
    m: "m < 5" and f: "fs (json_name_full name ! m) = Some (Json full)" and
    r: "render_model name m full conf = Inr (path, calls)"
    by blast
  from render_model_Inr [OF r] obtain ob co ids res t pa where
    o: "full = JObject ob" "conf = JObject co" and
    i: "token_chain_ids ob = Some ids" "token_res_ids ob = Some res" "xticks res = Inr t"
       "pae ob = Some pa"
    by blast
  let ?B = "boundary_calls (map (\<lambda>c. (c, hd (np_where_eq ids c))) (np_unique ids))
              :: ('l, 'p) call list"
  let ?L = "concat (map (\<lambda>c.
               [Text AxTopbar
                  ((of_nat (hd (np_where_eq ids c)) + of_nat (last (np_where_eq ids c))) / 2) 0 c
                  ''#222222'' ''center'' ''center'',
                Text AxLeftbar 0
                  ((of_nat (hd (np_where_eq ids c)) + of_nat (last (np_where_eq ids c))) / 2) c
                  ''#222222'' ''center'' ''center'']) (np_unique ids)) :: ('l, 'p) call list"
  have bl: "filter is_line ?B = ?B" and bt: "filter is_text ?B = []"
    by (simp_all add: is_line_boundary_calls)
  have ll: "filter is_line ?L = []" and lt: "filter is_text ?L = ?L"
    by (auto simp: filter_concat is_line_def is_text_def comp_def)
  define body where "body =
          [Subplots 4 4,
           ImshowPae pa ''Greens_r'' 0 30,
           SetYticks Ax [],
           SpinesStyle Ax ''--'' 1 ''k'',
           AppendAxes AxColorbar ''right'' ''5%'' (2 / 10),
           AppendAxes AxTopbar ''top'' ''8%'' (3 / 100),
           AppendAxes AxLeftbar ''left'' ''8%'' (3 / 100),
           ImshowChains AxTopbar
             [map (\<lambda>c. the (map_of (zip (np_unique ids) [0..<card (set ids)]) c)) ids]
             ''tab10'' ''auto'' (7 / 10)]
          @ hide_axes_frame AxTopbar
          @ [ImshowChains AxLeftbar
               (transpose
                  [map (\<lambda>c. the (map_of (zip (np_unique ids) [0..<card (set ids)]) c)) ids])
               ''tab10'' ''auto'' (7 / 10)]
          @ hide_axes_frame AxLeftbar
          @ [FigColorbar AxColorbar (''PAE ('' @ [CHR 0xC5] @ '')'')]
          @ ?B @ ?L @ [Savefig (figure_name name m) 300 ''tight'' False]"
  have rc: "render_model name m (JObject ob) (JObject co) = Inr (figure_name name m, body)"
    unfolding body_def by (rule render_model_closed [OF i])
  from r o have "render_model name m (JObject ob) (JObject co) = Inr (path, calls)" by simp
  with rc have p: "path = figure_name name m" and c: "calls = body" by simp_all
  have "filter is_line calls = ?B"
    unfolding c body_def filter_append bl ll by (simp add: is_line_def hide_axes_frame_def)
  moreover have "filter is_text calls = ?L"
    unfolding c body_def filter_append bt lt by (simp add: is_text_def hide_axes_frame_def)
  ultimately show ?thesis using m p f o i by blast
qed

lemma fs_complete_full: "m < 5 \<Longrightarrow> fs_complete (json_name_full ''d'' ! m) = Some (Json (JObject sample_full))"
proof -
  assume "m < 5"
  then have "json_name_full ''d'' ! m \<in> set (json_name_full ''d'')"
    by (intro nth_mem) (simp add: length_json_name_full)
  then show ?thesis by (simp add: fs_complete_def)
qed

subsection \<open>The claims about the overlays\<close>

text \<open>
  C4. In every figure that is saved, the four separator lines (dashed black across
  the centre panel on both axes, solid white in the top and in the left strip) are drawn
  at \<open>i - 0.5\<close> for every position \<open>i\<close> other than 0 at which a chain label occurs for
  the first time, and every line of the figure is one of these: a chain that starts at
  index 0 gets none. On \<open>"AAABBBCCC"\<close> the start positions are 0, 3 and 6 and the lines are
  at 2.5 and 5.5
\<close>

theorem boundary_lines:
  "((path, calls) \<in> set (saved (main name (fs :: ('l::linorder, 'p) filesystem))) \<longrightarrow>
     (\<exists>m ob ids. m < 5 \<and> path = figure_name name m \<and>
        fs (json_name_full name ! m) = Some (Json (JObject ob)) \<and>
        token_chain_ids ob = Some ids \<and>
        (\<forall>i. 0 < i \<and> i < length ids \<and> ids ! i \<notin> set (take i ids) \<longrightarrow>
           Axhline Ax (of_nat i - 1 / 2) ''k'' 1 ''--'' \<in> set calls \<and>
           Axvline Ax (of_nat i - 1 / 2) ''k'' 1 ''--'' \<in> set calls \<and>
           Axvline AxTopbar (of_nat i - 1 / 2) ''w'' 1 ''-'' \<in> set calls \<and>
           Axhline AxLeftbar (of_nat i - 1 / 2) ''w'' 1 ''-'' \<in> set calls) \<and>
        (\<forall>c \<in> set calls. is_line c \<longrightarrow>
           (\<exists>i. 0 < i \<and> i < length ids \<and> ids ! i \<notin> set (take i ids) \<and>
              (c = Axhline Ax (of_nat i - 1 / 2) ''k'' 1 ''--'' \<or>
               c = Axvline Ax (of_nat i - 1 / 2) ''k'' 1 ''--'' \<or>
               c = Axvline AxTopbar (of_nat i - 1 / 2) ''w'' 1 ''-'' \<or>
               c = Axhline AxLeftbar (of_nat i - 1 / 2) ''w'' 1 ''-'')))))
   \<and> (\<exists>n e nums. process_token_chains ''AAABBBCCC'' =
         Inr (n, [(CHR ''A'', 0), (CHR ''B'', 3), (CHR ''C'', 6)], e, nums))
   \<and> boundary_calls [(CHR ''A'', 0), (CHR ''B'', 3), (CHR ''C'', 6)] =
       [Axhline Ax (5 / 2) ''k'' 1 ''--'', Axvline Ax (5 / 2) ''k'' 1 ''--'',
        Axvline AxTopbar (5 / 2) ''w'' 1 ''-'', Axhline AxLeftbar (5 / 2) ''w'' 1 ''-'',
        Axhline Ax (11 / 2) ''k'' 1 ''--'', Axvline Ax (11 / 2) ''k'' 1 ''--'',
        Axvline AxTopbar (11 / 2) ''w'' 1 ''-'', Axhline AxLeftbar (11 / 2) ''w'' 1 ''-'']"
proof (intro conjI impI)
  assume a: "(path, calls) \<in> set (saved (main name fs))"
  from saved_figure_calls [OF a] obtain m ob ids where
    m: "m < 5" "path = figure_name name m"
       "fs (json_name_full name ! m) = Some (Json (JObject ob))" "token_chain_ids ob = Some ids"
    and l: "filter is_line calls =
        boundary_calls (map (\<lambda>c. (c, hd (np_where_eq ids c))) (np_unique ids))"
    by blast
  let ?S = "map (\<lambda>c. (c, hd (np_where_eq ids c))) (np_unique ids)"
  have lines: "c \<in> set calls \<and> is_line c \<longleftrightarrow>
      (\<exists>k \<in> set ids. hd (np_where_eq ids k) \<noteq> 0 \<and> c \<in> set (separator_calls (hd (np_where_eq ids k))))"
    for c
  proof -
    have "c \<in> set calls \<and> is_line c \<longleftrightarrow> c \<in> set (filter is_line calls)" by auto
    also have "\<dots> \<longleftrightarrow> c \<in> set (boundary_calls ?S)" by (simp only: l)
    also have "\<dots> \<longleftrightarrow> (\<exists>k \<in> set ids. hd (np_where_eq ids k) \<noteq> 0 \<and>
        c \<in> set (separator_calls (hd (np_where_eq ids k))))"
      by (auto simp: set_boundary_calls set_np_unique split: if_splits)
    finally show ?thesis .
  qed
  have drawn: "Axhline Ax (of_nat i - 1 / 2) ''k'' 1 ''--'' \<in> set calls \<and>
           Axvline Ax (of_nat i - 1 / 2) ''k'' 1 ''--'' \<in> set calls \<and>
           Axvline AxTopbar (of_nat i - 1 / 2) ''w'' 1 ''-'' \<in> set calls \<and>
           Axhline AxLeftbar (of_nat i - 1 / 2) ''w'' 1 ''-'' \<in> set calls"
    if i: "0 < i \<and> i < length ids \<and> ids ! i \<notin> set (take i ids)" for i
  proof -
    from i have k: "ids ! i \<in> set ids" by simp
    from i first_occurrence [OF k, of i] have h: "hd (np_where_eq ids (ids ! i)) = i" by simp
    have "c \<in> set calls" if c: "c \<in> set (separator_calls i)" for c :: "('l, 'p) call"
    proof -
      from i h c have "hd (np_where_eq ids (ids ! i)) \<noteq> 0 \<and>
          c \<in> set (separator_calls (hd (np_where_eq ids (ids ! i))))" by simp
      with k have "\<exists>k \<in> set ids. hd (np_where_eq ids k) \<noteq> 0 \<and>
          c \<in> set (separator_calls (hd (np_where_eq ids k)))" by blast
      with lines [of c] show ?thesis by blast
    qed
    then show ?thesis by (simp add: separator_calls_def)
  qed
  have only: "\<exists>i. 0 < i \<and> i < length ids \<and> ids ! i \<notin> set (take i ids) \<and>
              (c = Axhline Ax (of_nat i - 1 / 2) ''k'' 1 ''--'' \<or>
               c = Axvline Ax (of_nat i - 1 / 2) ''k'' 1 ''--'' \<or>
               c = Axvline AxTopbar (of_nat i - 1 / 2) ''w'' 1 ''-'' \<or>
               c = Axhline AxLeftbar (of_nat i - 1 / 2) ''w'' 1 ''-'')"
    if c: "c \<in> set calls" "is_line c" for c
  proof -
    from c lines [of c] obtain k where k: "k \<in> set ids" "hd (np_where_eq ids k) \<noteq> 0"
      "c \<in> set (separator_calls (hd (np_where_eq ids k)))" by blast
    let ?i = "hd (np_where_eq ids k)"
    from first_occurrence [OF k(1), of ?i] have "?i < length ids \<and> ids ! ?i \<notin> set (take ?i ids)"
      by simp
    with k(2,3) show ?thesis
      by (intro exI [of _ ?i]) (auto simp: separator_calls_def)
  qed
  from m drawn only show "\<exists>m ob ids. m < 5 \<and> path = figure_name name m \<and>
        fs (json_name_full name ! m) = Some (Json (JObject ob)) \<and>
        token_chain_ids ob = Some ids \<and>
        (\<forall>i. 0 < i \<and> i < length ids \<and> ids ! i \<notin> set (take i ids) \<longrightarrow>
           Axhline Ax (of_nat i - 1 / 2) ''k'' 1 ''--'' \<in> set calls \<and>
           Axvline Ax (of_nat i - 1 / 2) ''k'' 1 ''--'' \<in> set calls \<and>
           Axvline AxTopbar (of_nat i - 1 / 2) ''w'' 1 ''-'' \<in> set calls \<and>
           Axhline AxLeftbar (of_nat i - 1 / 2) ''w'' 1 ''-'' \<in> set calls) \<and>
        (\<forall>c \<in> set calls. is_line c \<longrightarrow>
           (\<exists>i. 0 < i \<and> i < length ids \<and> ids ! i \<notin> set (take i ids) \<and>
              (c = Axhline Ax (of_nat i - 1 / 2) ''k'' 1 ''--'' \<or>
               c = Axvline Ax (of_nat i - 1 / 2) ''k'' 1 ''--'' \<or>
               c = Axvline AxTopbar (of_nat i - 1 / 2) ''w'' 1 ''-'' \<or>
               c = Axhline AxLeftbar (of_nat i - 1 / 2) ''w'' 1 ''-'')))"
    by blast
next
  have "process_token_chains ''AAABBBCCC'' =
      Inr ([(CHR ''A'', 0), (CHR ''B'', 1), (CHR ''C'', 2)],
           [(CHR ''A'', 0), (CHR ''B'', 3), (CHR ''C'', 6)],
           [(CHR ''A'', 2), (CHR ''B'', 5), (CHR ''C'', 8)],
           [[0, 0, 0, 1, 1, 1, 2, 2, 2]])"
    by code_simp
  then show "\<exists>n e nums. process_token_chains ''AAABBBCCC'' =
         Inr (n, [(CHR ''A'', 0), (CHR ''B'', 3), (CHR ''C'', 6)], e, nums)"
    by blast
next
  show "boundary_calls [(CHR ''A'', 0), (CHR ''B'', 3), (CHR ''C'', 6)] =
       [Axhline Ax (5 / 2) ''k'' 1 ''--'', Axvline Ax (5 / 2) ''k'' 1 ''--'',
        Axvline AxTopbar (5 / 2) ''w'' 1 ''-'', Axhline AxLeftbar (5 / 2) ''w'' 1 ''-'',
        Axhline Ax (11 / 2) ''k'' 1 ''--'', Axvline Ax (11 / 2) ''k'' 1 ''--'',
        Axvline AxTopbar (11 / 2) ''w'' 1 ''-'', Axhline AxLeftbar (11 / 2) ''w'' 1 ''-'']"
    by (simp add: boundary_calls_def separator_calls_def)
qed

theorem boundary_lines_witness:
  "hd (saved (main ''d'' fs_complete)) \<in> set (saved (main ''d'' fs_complete)) \<and>
   fst (hd (saved (main ''d'' fs_complete))) = ''d/figure_pae_0.png'' \<and>
   (0::nat) < 2 \<and> (2::nat) < length ''AAB'' \<and> ''AAB'' ! 2 \<notin> set (take 2 ''AAB'') \<and>
   Axhline Ax (3 / 2) ''k'' 1 ''--'' \<in> set (snd (hd (saved (main ''d'' fs_complete)))) \<and>
   Axvline Ax (3 / 2) ''k'' 1 ''--'' \<in> set (snd (hd (saved (main ''d'' fs_complete)))) \<and>
   Axvline AxTopbar (3 / 2) ''w'' 1 ''-'' \<in> set (snd (hd (saved (main ''d'' fs_complete)))) \<and>
   Axhline AxLeftbar (3 / 2) ''w'' 1 ''-'' \<in> set (snd (hd (saved (main ''d'' fs_complete))))"
proof -
  define fig where "fig = hd (saved (main ''d'' fs_complete))"
  have p: "fst fig = ''d/figure_pae_0.png''" unfolding fig_def by code_simp
  have "saved (main ''d'' fs_complete) \<noteq> []" by code_simp
  then have mem: "fig \<in> set (saved (main ''d'' fs_complete))" unfolding fig_def by simp
  then have "(fst fig, snd fig) \<in> set (saved (main ''d'' fs_complete))" by simp
  with boundary_lines [of "fst fig" "snd fig" "''d''" fs_complete] obtain m ob ids where
    m: "m < 5" and f: "fs_complete (json_name_full ''d'' ! m) = Some (Json (JObject ob))"
    and ids: "token_chain_ids ob = Some ids"
    and drawn: "\<forall>i. 0 < i \<and> i < length ids \<and> ids ! i \<notin> set (take i ids) \<longrightarrow>
           Axhline Ax (of_nat i - 1 / 2) ''k'' 1 ''--'' \<in> set (snd fig) \<and>
           Axvline Ax (of_nat i - 1 / 2) ''k'' 1 ''--'' \<in> set (snd fig) \<and>
           Axvline AxTopbar (of_nat i - 1 / 2) ''w'' 1 ''-'' \<in> set (snd fig) \<and>
           Axhline AxLeftbar (of_nat i - 1 / 2) ''w'' 1 ''-'' \<in> set (snd fig)"
    by blast
  from f fs_complete_full [OF m] have "ob = sample_full" by simp
  with ids have i: "ids = ''AAB''" by (simp add: sample_full_def)
  have h: "(0::nat) < 2 \<and> (2::nat) < length ''AAB'' \<and> ''AAB'' ! 2 \<notin> set (take 2 ''AAB'')"
    by (simp add: take_Suc_conv_app_nth numeral_2_eq_2)
  from drawn [rule_format, of 2] h i have
    "Axhline Ax (of_nat 2 - 1 / 2) ''k'' 1 ''--'' \<in> set (snd fig) \<and>
     Axvline Ax (of_nat 2 - 1 / 2) ''k'' 1 ''--'' \<in> set (snd fig) \<and>
     Axvline AxTopbar (of_nat 2 - 1 / 2) ''w'' 1 ''-'' \<in> set (snd fig) \<and>
     Axhline AxLeftbar (of_nat 2 - 1 / 2) ''w'' 1 ''-'' \<in> set (snd fig)"
    by blast
  moreover have "(of_nat 2 - 1 / 2 :: rat) = 3 / 2" by simp
  ultimately show ?thesis using mem p h unfolding fig_def by simp
qed

text \<open>
  C5. In every figure that is saved, each chain label of the model is written in the
  top strip and in the left strip at the midpoint \<open>(first + last) / 2\<close> of the first and
  last positions recorded for it by \<open>process_token_chains\<close>, and the figure has no other
  text
\<close>

theorem chain_labels:
  "(path, calls) \<in> set (saved (main name (fs :: ('l::linorder, 'p) filesystem))) \<Longrightarrow>
     \<exists>m ob ids n s e nums. m < 5 \<and> path = figure_name name m \<and>
        fs (json_name_full name ! m) = Some (Json (JObject ob)) \<and>
        token_chain_ids ob = Some ids \<and>
        process_token_chains ids = Inr (n, s, e, nums) \<and>
        (\<forall>c \<in> set ids. \<exists>f l. dict_get s c = Inr f \<and> dict_get e c = Inr l \<and>
           Text AxTopbar ((of_nat f + of_nat l) / 2) 0 c ''#222222'' ''center'' ''center''
             \<in> set calls \<and>
           Text AxLeftbar 0 ((of_nat f + of_nat l) / 2) c ''#222222'' ''center'' ''center''
             \<in> set calls) \<and>
        (\<forall>t \<in> set calls. is_text t \<longrightarrow>
           (\<exists>c \<in> set ids. \<exists>f l. dict_get s c = Inr f \<and> dict_get e c = Inr l \<and>
              (t = Text AxTopbar ((of_nat f + of_nat l) / 2) 0 c ''#222222'' ''center'' ''center'' \<or>
               t = Text AxLeftbar 0 ((of_nat f + of_nat l) / 2) c ''#222222'' ''center''
                     ''center'')))"
proof -
  assume a: "(path, calls) \<in> set (saved (main name fs))"
  from saved_figure_calls [OF a] obtain m ob ids where
    m: "m < 5" "path = figure_name name m"
       "fs (json_name_full name ! m) = Some (Json (JObject ob))" "token_chain_ids ob = Some ids"
    and t: "filter is_text calls =
        concat (map (\<lambda>c.
               [Text AxTopbar
                  ((of_nat (hd (np_where_eq ids c)) + of_nat (last (np_where_eq ids c))) / 2) 0 c
                  ''#222222'' ''center'' ''center'',
                Text AxLeftbar 0
                  ((of_nat (hd (np_where_eq ids c)) + of_nat (last (np_where_eq ids c))) / 2) c
                  ''#222222'' ''center'' ''center'']) (np_unique ids))"
    by blast
  let ?u = "np_unique ids"
  let ?n = "zip ?u [0..<card (set ids)]"
  let ?s = "map (\<lambda>c. (c, hd (np_where_eq ids c))) ?u"
  let ?e = "map (\<lambda>c. (c, last (np_where_eq ids c))) ?u"
  let ?nums = "[map (\<lambda>c. the (map_of ?n c)) ids]"
  have p: "process_token_chains ids = Inr (?n, ?s, ?e, ?nums)"
    by (rule process_token_chains_closed)
  have look: "dict_get ?s c = Inr (hd (np_where_eq ids c)) \<and>
      dict_get ?e c = Inr (last (np_where_eq ids c))" if "c \<in> set ids" for c
  proof -
    from that have cu: "c \<in> set ?u" by (simp add: set_np_unique)
    show ?thesis by (simp add: dict_get_def map_of_graph [OF distinct_np_unique cu])
  qed
  have texts: "x \<in> set calls \<and> is_text x \<longleftrightarrow>
      (\<exists>c \<in> set ids.
         x = Text AxTopbar
               ((of_nat (hd (np_where_eq ids c)) + of_nat (last (np_where_eq ids c))) / 2) 0 c
               ''#222222'' ''center'' ''center'' \<or>
         x = Text AxLeftbar 0
               ((of_nat (hd (np_where_eq ids c)) + of_nat (last (np_where_eq ids c))) / 2) c
               ''#222222'' ''center'' ''center'')" for x :: "('l, 'p) call"
  proof -
    have "x \<in> set calls \<and> is_text x \<longleftrightarrow> x \<in> set (filter is_text calls)" by auto
    also have "\<dots> \<longleftrightarrow> (\<exists>c \<in> set ids.
         x = Text AxTopbar
               ((of_nat (hd (np_where_eq ids c)) + of_nat (last (np_where_eq ids c))) / 2) 0 c
               ''#222222'' ''center'' ''center'' \<or>
         x = Text AxLeftbar 0
               ((of_nat (hd (np_where_eq ids c)) + of_nat (last (np_where_eq ids c))) / 2) c
               ''#222222'' ''center'' ''center'')"
      unfolding t by (auto simp: set_np_unique)
    finally show ?thesis .
  qed
  have placed: "\<exists>f l. dict_get ?s c = Inr f \<and> dict_get ?e c = Inr l \<and>
           Text AxTopbar ((of_nat f + of_nat l) / 2) 0 c ''#222222'' ''center'' ''center''
             \<in> set calls \<and>
           Text AxLeftbar 0 ((of_nat f + of_nat l) / 2) c ''#222222'' ''center'' ''center''
             \<in> set calls" if c: "c \<in> set ids" for c
  proof -
    let ?f = "hd (np_where_eq ids c)" and ?l = "last (np_where_eq ids c)"
    have "Text AxTopbar ((of_nat ?f + of_nat ?l) / 2) 0 c ''#222222'' ''center'' ''center''
            \<in> set calls"
      using texts [of "Text AxTopbar ((of_nat ?f + of_nat ?l) / 2) 0 c ''#222222'' ''center''
        ''center''"] c by blast
    moreover have "Text AxLeftbar 0 ((of_nat ?f + of_nat ?l) / 2) c ''#222222'' ''center''
        ''center'' \<in> set calls"
      using texts [of "Text AxLeftbar 0 ((of_nat ?f + of_nat ?l) / 2) c ''#222222'' ''center''
        ''center''"] c by blast
    ultimately show ?thesis using look [OF c] by blast
  qed
  have only: "\<exists>c \<in> set ids. \<exists>f l. dict_get ?s c = Inr f \<and> dict_get ?e c = Inr l \<and>
              (x = Text AxTopbar ((of_nat f + of_nat l) / 2) 0 c ''#222222'' ''center'' ''center'' \<or>
               x = Text AxLeftbar 0 ((of_nat f + of_nat l) / 2) c ''#222222'' ''center''
                     ''center'')" if x: "x \<in> set calls" "is_text x" for x
  proof -
    from x texts [of x] obtain c where c: "c \<in> set ids" and
      "x = Text AxTopbar
               ((of_nat (hd (np_where_eq ids c)) + of_nat (last (np_where_eq ids c))) / 2) 0 c
               ''#222222'' ''center'' ''center'' \<or>
       x = Text AxLeftbar 0
               ((of_nat (hd (np_where_eq ids c)) + of_nat (last (np_where_eq ids c))) / 2) c
               ''#222222'' ''center'' ''center''"
      by blast
    with look [OF c] show ?thesis by blast
  qed
  from m p placed only show ?thesis by blast
qed

theorem chain_labels_witness:
  "hd (saved (main ''d'' fs_complete)) \<in> set (saved (main ''d'' fs_complete)) \<and>
   fst (hd (saved (main ''d'' fs_complete))) = ''d/figure_pae_0.png'' \<and>
   CHR ''A'' \<in> set ''AAB'' \<and>
   Text AxTopbar (1 / 2) 0 (CHR ''A'') ''#222222'' ''center'' ''center''
     \<in> set (snd (hd (saved (main ''d'' fs_complete)))) \<and>
   Text AxLeftbar 0 (1 / 2) (CHR ''A'') ''#222222'' ''center'' ''center''
     \<in> set (snd (hd (saved (main ''d'' fs_complete))))"
proof -
  define fig where "fig = hd (saved (main ''d'' fs_complete))"
  have p: "fst fig = ''d/figure_pae_0.png''" unfolding fig_def by code_simp
  have "saved (main ''d'' fs_complete) \<noteq> []" by code_simp
  then have mem: "fig \<in> set (saved (main ''d'' fs_complete))" unfolding fig_def by simp
  then have "(fst fig, snd fig) \<in> set (saved (main ''d'' fs_complete))" by simp
  from chain_labels [OF this] obtain m ob ids n s e nums where
    m: "m < 5" and f: "fs_complete (json_name_full ''d'' ! m) = Some (Json (JObject ob))"
    and ids: "token_chain_ids ob = Some ids"
    and r: "process_token_chains ids = Inr (n, s, e, nums)"
    and placed: "\<forall>c \<in> set ids. \<exists>f l. dict_get s c = Inr f \<and> dict_get e c = Inr l \<and>
           Text AxTopbar ((of_nat f + of_nat l) / 2) 0 c ''#222222'' ''center'' ''center''
             \<in> set (snd fig) \<and>
           Text AxLeftbar 0 ((of_nat f + of_nat l) / 2) c ''#222222'' ''center'' ''center''
             \<in> set (snd fig)"
    by blast
  from f fs_complete_full [OF m] have "ob = sample_full" by simp
  with ids have i: "ids = ''AAB''" by (simp add: sample_full_def)
  have ev: "process_token_chains ''AAB'' =
      Inr ([(CHR ''A'', 0), (CHR ''B'', 1)], [(CHR ''A'', 0), (CHR ''B'', 2)],
           [(CHR ''A'', 1), (CHR ''B'', 2)], [[0, 0, 1]])"
    by code_simp
  from r ev i have s: "s = [(CHR ''A'', 0), (CHR ''B'', 2)]" and e: "e = [(CHR ''A'', 1), (CHR ''B'', 2)]"
    by auto
  have a: "CHR ''A'' \<in> set ''AAB''" by simp
  with placed i obtain f l where fl: "dict_get s (CHR ''A'') = Inr f" "dict_get e (CHR ''A'') = Inr l"
    and tx: "Text AxTopbar ((of_nat f + of_nat l) / 2) 0 (CHR ''A'') ''#222222'' ''center'' ''center''
             \<in> set (snd fig)"
       "Text AxLeftbar 0 ((of_nat f + of_nat l) / 2) (CHR ''A'') ''#222222'' ''center'' ''center''
             \<in> set (snd fig)"
    by blast
  from fl have "f = 0" "l = 1" by (simp_all add: s e dict_get_def)
  with tx mem p a show ?thesis unfolding fig_def by simp
qed

end
